theory Spec2Isabelle
  imports Main "HOL-Library.Sublist"
begin

section \<open>Identifiers, strings and numbers\<close>

text \<open>
  \<^verbatim>\<open>type CollectionID = number | string\<close>. The numeric ids of the application are
  the integers handed out by the auto-increment primary key, so a number is an \<open>int\<close>.
\<close>

datatype cid = NumId int | StrId string

text \<open>
  The template literal \<^verbatim>\<open>`${n}`\<close> of an integer: its decimal digits, with a minus
  sign when negative.
\<close>

definition digit_char :: "nat \<Rightarrow> char" where
  "digit_char d = ''0123456789'' ! d"

fun nat_str :: "nat \<Rightarrow> string" where
  "nat_str n = (if n < 10 then [digit_char n] else nat_str (n div 10) @ [digit_char (n mod 10)])"

declare nat_str.simps [simp del]

definition num_str :: "int \<Rightarrow> string" where
  "num_str i = (if i < 0 then CHR ''-'' # nat_str (nat (- i)) else nat_str (nat i))"

text \<open>\<^verbatim>\<open>`${collectionId}`\<close> for either kind of id.\<close>

fun id_str :: "cid \<Rightarrow> string" where
  "id_str (NumId n) = num_str n"
| "id_str (StrId s) = s"

text \<open>
  JavaScript truthiness of an optional id: \<^verbatim>\<open>undefined\<close>, \<^verbatim>\<open>0\<close> and
  \<^verbatim>\<open>''\<close> are falsy.
\<close>

fun truthy_id :: "cid option \<Rightarrow> bool" where
  "truthy_id None = False"
| "truthy_id (Some (NumId n)) = (n \<noteq> 0)"
| "truthy_id (Some (StrId s)) = (s \<noteq> [])"

fun truthy_str :: "string option \<Rightarrow> bool" where
  "truthy_str None = False"
| "truthy_str (Some s) = (s \<noteq> [])"

text \<open>\<^verbatim>\<open>`${collection.id}`\<close> of an optional id.\<close>

fun opt_id_str :: "cid option \<Rightarrow> string" where
  "opt_id_str None = ''undefined''"
| "opt_id_str (Some k) = id_str k"

text \<open>The separator of the ids in a \<^verbatim>\<open>parentPath\<close>.\<close>

definition COLLECTION_PATH_SEPARATOR :: char where
  "COLLECTION_PATH_SEPARATOR = CHR ''/''"

text \<open>\<^verbatim>\<open>s.split(sep)\<close> for a separator of one character.\<close>

fun js_split :: "char \<Rightarrow> string \<Rightarrow> string list" where
  "js_split sep [] = [[]]"
| "js_split sep (c # cs) =
     (if c = sep then [] # js_split sep cs
      else (case js_split sep cs of [] \<Rightarrow> [[c]] | seg # segs \<Rightarrow> (c # seg) # segs))"

text \<open>\<^verbatim>\<open>s.startsWith(p)\<close> of an optional string; an absent string starts with nothing
  (the index Dexie searches holds no row without the field).\<close>

definition startsWith :: "string option \<Rightarrow> string \<Rightarrow> bool" where
  "startsWith s p = (case s of None \<Rightarrow> False | Some str \<Rightarrow> prefix p str)"

text \<open>
  \<^verbatim>\<open>String.prototype.replace\<close> with a string pattern: the first occurrence of the
  pattern is replaced. In the replacement \<^verbatim>\<open>$$\<close> stands for a dollar sign, \<^verbatim>\<open>$&\<close> for
  the matched text, \<^verbatim>\<open>$`\<close> for the text before the match and \<^verbatim>\<open>$'\<close> for the text
  after it; every other character stands for itself (a string pattern has no capture
  groups).
\<close>

fun first_occurrence :: "string \<Rightarrow> string \<Rightarrow> (string \<times> string) option" where
  "first_occurrence pat [] = (if pat = [] then Some ([], []) else None)"
| "first_occurrence pat (c # cs) =
     (if prefix pat (c # cs) then Some ([], drop (length pat) (c # cs))
      else map_option (\<lambda>(before, after). (c # before, after)) (first_occurrence pat cs))"

fun getSubstitution :: "string \<Rightarrow> string \<Rightarrow> string \<Rightarrow> string \<Rightarrow> string" where
  "getSubstitution matched before after [] = []"
| "getSubstitution matched before after [c] = [c]"
| "getSubstitution matched before after (c # d # r) =
     (if c = CHR ''$'' \<and> d = CHR ''$'' then CHR ''$'' # getSubstitution matched before after r
      else if c = CHR ''$'' \<and> d = CHR ''&'' then matched @ getSubstitution matched before after r
      else if c = CHR ''$'' \<and> d = CHR 0x60 then before @ getSubstitution matched before after r
      else if c = CHR ''$'' \<and> d = CHR 0x27 then after @ getSubstitution matched before after r
      else c # getSubstitution matched before after (d # r))"

definition js_replace :: "string \<Rightarrow> string \<Rightarrow> string \<Rightarrow> string" where
  "js_replace s pat replacement =
     (case first_occurrence pat s of
        None \<Rightarrow> s
      | Some (before, after) \<Rightarrow> before @ getSubstitution pat before after replacement @ after)"

section \<open>Data model\<close>

text \<open>
  Modelled from the spec: the interfaces \<^verbatim>\<open>IQuery\<close>, \<^verbatim>\<open>IQueryCollection\<close> and
  \<^verbatim>\<open>IQueryCollectionTree\<close> are imported from \<^verbatim>\<open>altair-graphql-core\<close> and are not among
  the sources; section 3 of the specification lists their fields. Every field of a query
  may be absent, so every field is an option (\<open>None\<close> is an absent property). The
  window state a query carries besides its name (url, query text, variables, headers) is
  one opaque value, \<open>content\<close>.
\<close>

record query =
  q_id :: "string option"
  q_serverId :: "string option"
  windowName :: "string option"
  q_created_at :: "int option"
  q_updated_at :: "int option"
  content :: "string option"

text \<open>
  Modelled from the spec: \<^verbatim>\<open>IQueryCollection\<close> (section 3). The source reads \<^verbatim>\<open>id\<close>,
  \<^verbatim>\<open>parentPath\<close>, \<^verbatim>\<open>serverId\<close> and \<^verbatim>\<open>updated_at\<close> as optional. Timestamps are
  milliseconds since the epoch.
\<close>

record collection =
  c_id :: "cid option"
  title :: string
  parentPath :: "string option"
  serverId :: "string option"
  queries :: "query list"
  created_at :: "int option"
  updated_at :: "int option"

text \<open>
  Modelled from the spec: \<^verbatim>\<open>IQueryCollectionTree\<close> (section 3), the fields of a collection and the list \<^verbatim>\<open>collections\<close> of
  subtrees. Both functions that take a tree read \<^verbatim>\<open>collections\<close> through \<^verbatim>\<open>?.\<close> and
  \<^verbatim>\<open>|| []\<close>, so an absent list is the empty list.
\<close>

datatype ctree = CTree collection "ctree list"

text \<open>
  Modelled from the spec: what \<^verbatim>\<open>api.getCollections()\<close> answers (section 6; the
  \<^verbatim>\<open>ApiService\<close> is not among the sources). \<^verbatim>\<open>new Date(x).getTime()\<close> is a number of
  milliseconds, or \<^verbatim>\<open>NaN\<close> for an invalid date or an absent \<^verbatim>\<open>updated_at\<close>: an
  \<open>int option\<close> with \<open>None\<close> for \<^verbatim>\<open>NaN\<close>.
\<close>

record server_query =
  sq_id :: string
  sq_updatedAt :: "int option"
  sq_content :: query

record server_collection =
  sc_id :: string
  collectionName :: string
  sc_updatedAt :: "int option"
  sc_queries :: "server_query list"

text \<open>
  The path the subcollections of a collection carry as \<^verbatim>\<open>parentPath\<close>, as
  \<^verbatim>\<open>moveLocalCollection\<close> and \<^verbatim>\<open>getSubcollectionParentPath\<close> compute it:
  \<^verbatim>\<open>`${collection.parentPath ?? ''}${COLLECTION_PATH_SEPARATOR}${collectionId}`\<close>.
\<close>

definition subcollectionParentPath :: "collection \<Rightarrow> cid \<Rightarrow> string" where
  "subcollectionParentPath collection collectionId =
     (case parentPath collection of None \<Rightarrow> [] | Some p \<Rightarrow> p)
       @ COLLECTION_PATH_SEPARATOR # id_str collectionId"

section \<open>The storage table\<close>

text \<open>
  Modelled from the spec: the storage engine (\<^verbatim>\<open>StorageService\<close>, a Dexie database) is
  not among the sources. Section 6 of the specification gives its contract: a table of
  collection records with \<^verbatim>\<open>add\<close>, \<^verbatim>\<open>get(id)\<close>, \<^verbatim>\<open>delete(id)\<close>,
  \<^verbatim>\<open>where(field).equals(v)\<close>, \<^verbatim>\<open>where(field).startsWith(prefix)\<close>, \<^verbatim>\<open>or\<close>,
  \<^verbatim>\<open>modify(mutator)\<close> and \<^verbatim>\<open>toArray()\<close>. The table \<^verbatim>\<open>queryCollections\<close> is the
  list of its rows, which is also what \<^verbatim>\<open>toArray()\<close> returns; the primary key of a row
  is its \<open>c_id\<close>, and the keys \<^verbatim>\<open>42\<close> and \<^verbatim>\<open>"42"\<close> are different keys. \<^verbatim>\<open>add\<close>
  appends a row.
\<close>

type_synonym table = "collection list"

text \<open>Modelled from the spec: \<^verbatim>\<open>get(id)\<close>, the row stored under the key, if any.\<close>

definition table_get :: "table \<Rightarrow> cid \<Rightarrow> collection option" where
  "table_get t k = find (\<lambda>r. c_id r = Some k) t"

text \<open>Modelled from the spec: \<^verbatim>\<open>delete(id)\<close> removes what is stored under the key.\<close>

definition table_delete :: "table \<Rightarrow> cid \<Rightarrow> table" where
  "table_delete t k = filter (\<lambda>r. c_id r \<noteq> Some k) t"

text \<open>
  Modelled from the spec: \<^verbatim>\<open>where(...).or(...).modify(cb)\<close>. The callback runs once on
  every row the clause selects; the other rows are untouched.
\<close>

definition table_modify :: "(collection \<Rightarrow> bool) \<Rightarrow> (collection \<Rightarrow> collection) \<Rightarrow> table \<Rightarrow> table" where
  "table_modify sel cb t = map (\<lambda>r. if sel r then cb r else r) t"

section \<open>Lookup by id and alternate id\<close>

text \<open>
  \<^verbatim>\<open>Number(s)\<close> is a parameter \<open>N\<close> of the model: \<open>N s = None\<close> when the result is
  \<^verbatim>\<open>NaN\<close>, otherwise \<open>Some\<close> of the number. \<open>decimal_Number\<close> reads the empty string
  and decimal numerals with an optional minus sign, as \<^verbatim>\<open>Number\<close> does, and nothing else; it
  is the instance the model is run with on concrete inputs.
\<close>

definition digit_val :: "char \<Rightarrow> nat option" where
  "digit_val c = (if c \<in> set ''0123456789'' then Some (of_char c - 48) else None)"

fun decimal_nat :: "nat \<Rightarrow> string \<Rightarrow> nat option" where
  "decimal_nat acc [] = Some acc"
| "decimal_nat acc (c # cs) =
     (case digit_val c of None \<Rightarrow> None | Some d \<Rightarrow> decimal_nat (10 * acc + d) cs)"

definition decimal_Number :: "string \<Rightarrow> int option" where
  "decimal_Number s =
     (case s of
        [] \<Rightarrow> Some 0
      | c # cs \<Rightarrow>
          if c = CHR ''-'' \<and> cs \<noteq> [] then map_option (\<lambda>n. - int n) (decimal_nat 0 cs)
          else map_option int (decimal_nat 0 s))"

fun getAlternateCollectionID :: "(string \<Rightarrow> int option) \<Rightarrow> cid \<Rightarrow> cid" where
  "getAlternateCollectionID N (NumId n) = StrId (num_str n)"
| "getAlternateCollectionID N (StrId s) =
     (case N s of None \<Rightarrow> StrId [] | Some n \<Rightarrow> NumId n)"

definition getCollectionByID :: "(string \<Rightarrow> int option) \<Rightarrow> table \<Rightarrow> cid \<Rightarrow> collection option" where
  "getCollectionByID N t collectionId =
     (case table_get t collectionId of
        None \<Rightarrow> table_get t (getAlternateCollectionID N collectionId)
      | Some localCollection \<Rightarrow> table_get t collectionId)"

section \<open>Collaborators: clock, id generator, session, remote API\<close>

text \<open>
  What the service reads from its collaborators during one call:
  \<^item> \<open>Number\<close>: the conversion \<^verbatim>\<open>Number(s)\<close> (see above);
  \<^item> \<open>now\<close>: the reading of \<^verbatim>\<open>storage.now()\<close>, taken to be the same instant throughout
    one call of the service;
  \<^item> \<open>uuid\<close>: the id generator, \<open>uuid e k\<close> being the result of the \<open>k\<close>-th call of
    \<^verbatim>\<open>uuid()\<close>;
  \<^item> \<open>user\<close>: whether \<^verbatim>\<open>accountService.getUser()\<close> returns a user;
  \<^item> \<open>api_createQueries\<close>: the server ids \<^verbatim>\<open>api.createQueries\<close> answers with.
\<close>

record env =
  Number :: "string \<Rightarrow> int option"
  now :: int
  uuid :: "nat \<Rightarrow> string"
  user :: bool
  api_createQueries :: "string \<Rightarrow> query list \<Rightarrow> string list"

text \<open>The requests the service sends to the remote API, in the order sent.\<close>

datatype api_call =
    Api_createQueries string "query list"
  | Api_updateQuery string query
  | Api_deleteQuery string
  | Api_deleteCollection string

text \<open>
  The state the service works on: the table, the number of ids \<^verbatim>\<open>uuid()\<close> has generated
  so far, and the requests sent to the remote API.
\<close>

record world =
  queryCollections :: table
  uuid_count :: nat
  api_calls :: "api_call list"

text \<open>The errors the modelled functions throw, named after their messages.\<close>

datatype error =
    Could_not_retrieve_local_collection_data
  | Could_not_add_query_in_collection_to_remote
  | Could_not_retrieve_collection
  | Could_not_retrieve_parent_collection
  | All_collections_must_have_an_ID_to_get_a_tree

text \<open>
  An asynchronous call ends with the state it leaves behind and, when it rejects, the
  error: writes made before a \<^verbatim>\<open>throw\<close> stay (only \<^verbatim>\<open>moveLocalCollection\<close> runs in
  a transaction).
\<close>

type_synonym outcome = "error option \<times> world"

section \<open>Queries of a collection\<close>

text \<open>
  The rows \<^verbatim>\<open>where('id').equals(collectionId).or('id').equals(alternateCollectionId)\<close>
  selects.
\<close>

definition selected_by_id :: "env \<Rightarrow> cid \<Rightarrow> collection \<Rightarrow> bool" where
  "selected_by_id e collectionId r =
     (let alternateCollectionId = getAlternateCollectionID (Number e) collectionId
      in c_id r = Some collectionId \<or> c_id r = Some alternateCollectionId)"

definition updateCollectionByID ::
  "env \<Rightarrow> cid \<Rightarrow> (collection \<Rightarrow> collection) \<Rightarrow> world \<Rightarrow> world" where
  "updateCollectionByID e collectionId changeCb w =
     w\<lparr>queryCollections :=
         table_modify (selected_by_id e collectionId) changeCb (queryCollections w)\<rparr>"

definition mustGetLocalCollection :: "env \<Rightarrow> world \<Rightarrow> cid \<Rightarrow> error + collection" where
  "mustGetLocalCollection e w collectionId =
     (case getCollectionByID (Number e) (queryCollections w) collectionId of
        None \<Rightarrow> Inl Could_not_retrieve_local_collection_data
      | Some localCollection \<Rightarrow> Inr localCollection)"

text \<open>
  \<^verbatim>\<open>getLocalQuery\<close>: the query id may be \<^verbatim>\<open>undefined\<close> (\<^verbatim>\<open>deleteQuery\<close> passes
  \<^verbatim>\<open>query.id!\<close>), and \<^verbatim>\<open>===\<close> then finds a query without id.
\<close>

definition getLocalQuery :: "env \<Rightarrow> world \<Rightarrow> cid \<Rightarrow> string option \<Rightarrow> query option" where
  "getLocalQuery e w collectionId queryId =
     (case getCollectionByID (Number e) (queryCollections w) collectionId of
        None \<Rightarrow> None
      | Some localCollection \<Rightarrow> find (\<lambda>query. q_id query = queryId) (queries localCollection))"

text \<open>
  \<^verbatim>\<open>addLocalQuery\<close>: the callback of \<^verbatim>\<open>modify\<close> calls \<^verbatim>\<open>uuid()\<close>, once for every row
  it runs on, so the rows are walked with the count of generated ids.
\<close>

fun addLocalQuery_rows ::
  "env \<Rightarrow> (collection \<Rightarrow> bool) \<Rightarrow> query \<Rightarrow> table \<Rightarrow> nat \<Rightarrow> table \<times> nat" where
  "addLocalQuery_rows e sel query [] n = ([], n)"
| "addLocalQuery_rows e sel query (r # rs) n =
     (if sel r then
        (let uQuery = query\<lparr>q_id := Some (uuid e n), q_created_at := Some (now e),
                              q_updated_at := Some (now e)\<rparr>;
             (rs', n') = addLocalQuery_rows e sel query rs (Suc n)
         in (r\<lparr>queries := queries r @ [uQuery]\<rparr> # rs', n'))
      else
        (let (rs', n') = addLocalQuery_rows e sel query rs n in (r # rs', n')))"

definition addLocalQuery :: "env \<Rightarrow> cid \<Rightarrow> query \<Rightarrow> world \<Rightarrow> world" where
  "addLocalQuery e collectionId query w =
     (let (rows, n) = addLocalQuery_rows e (selected_by_id e collectionId) query
                        (queryCollections w) (uuid_count w)
      in w\<lparr>queryCollections := rows, uuid_count := n\<rparr>)"

text \<open>
  Object spread \<^verbatim>\<open>{...a, ...b}\<close>: a property present in \<open>b\<close> wins, the others are
  those of \<open>a\<close>.
\<close>

definition spread_field :: "'a option \<Rightarrow> 'a option \<Rightarrow> 'a option" where
  "spread_field x y = (case y of None \<Rightarrow> x | Some v \<Rightarrow> Some v)"

definition spread_query :: "query \<Rightarrow> query \<Rightarrow> query" where
  "spread_query a b =
     \<lparr>q_id = spread_field (q_id a) (q_id b),
      q_serverId = spread_field (q_serverId a) (q_serverId b),
      windowName = spread_field (windowName a) (windowName b),
      q_created_at = spread_field (q_created_at a) (q_created_at b),
      q_updated_at = spread_field (q_updated_at a) (q_updated_at b),
      content = spread_field (content a) (content b)\<rparr>"

definition empty_query :: query where
  "empty_query = \<lparr>q_id = None, q_serverId = None, windowName = None, q_created_at = None,
     q_updated_at = None, content = None\<rparr>"

definition updateLocalQuery :: "env \<Rightarrow> cid \<Rightarrow> string \<Rightarrow> query \<Rightarrow> world \<Rightarrow> world" where
  "updateLocalQuery e collectionId queryId query w =
     updateCollectionByID e collectionId
       (\<lambda>collection.
          let uQuery = query\<lparr>q_id := Some queryId, q_updated_at := Some (now e)\<rparr>
          in collection\<lparr>queries :=
               map (\<lambda>collectionQuery.
                      if q_id collectionQuery = Some queryId
                      then spread_query collectionQuery uQuery else collectionQuery)
                 (queries collection)\<rparr>)
       w"

definition deleteLocalQuery :: "env \<Rightarrow> cid \<Rightarrow> query \<Rightarrow> world \<Rightarrow> world" where
  "deleteLocalQuery e collectionId query w =
     updateCollectionByID e collectionId
       (\<lambda>collection.
          collection\<lparr>queries :=
            filter (\<lambda>collectionQuery.
                      if truthy_str (q_id query) then q_id query \<noteq> q_id collectionQuery
                      else windowName query \<noteq> windowName collectionQuery)
              (queries collection)\<rparr>)
       w"

text \<open>
  \<^verbatim>\<open>addRemoteQuery\<close>. The loop over \<^verbatim>\<open>queryServerIds.entries()\<close> is a recursion over the
  answered ids with the running index; \<^verbatim>\<open>queries[idx]\<close> beyond the end is
  \<^verbatim>\<open>undefined\<close>, whose spread is the empty object.
\<close>

fun addRemoteQuery_loop :: "env \<Rightarrow> cid \<Rightarrow> query list \<Rightarrow> nat \<Rightarrow> string list \<Rightarrow> world \<Rightarrow> world" where
  "addRemoteQuery_loop e collectionId qs idx [] w = w"
| "addRemoteQuery_loop e collectionId qs idx (queryServerId # rest) w =
     addRemoteQuery_loop e collectionId qs (Suc idx) rest
       (updateLocalQuery e collectionId queryServerId
          ((if idx < length qs then qs ! idx else empty_query)\<lparr>q_serverId := Some queryServerId\<rparr>)
          w)"

definition addRemoteQuery :: "env \<Rightarrow> cid \<Rightarrow> query list \<Rightarrow> world \<Rightarrow> outcome" where
  "addRemoteQuery e collectionId qs w =
     (case mustGetLocalCollection e w collectionId of
        Inl err \<Rightarrow> (Some err, w)
      | Inr localCollection \<Rightarrow>
          if \<not> truthy_str (serverId localCollection) then (None, w)
          else
            (let sid = the (serverId localCollection);
                 queryServerIds = api_createQueries e sid qs;
                 w1 = w\<lparr>api_calls := api_calls w @ [Api_createQueries sid qs]\<rparr>
             in if queryServerIds = [] then (Some Could_not_add_query_in_collection_to_remote, w1)
                else (None, addRemoteQuery_loop e collectionId qs 0 queryServerIds w1)))"

definition addQuery :: "env \<Rightarrow> cid \<Rightarrow> query \<Rightarrow> world \<Rightarrow> outcome" where
  "addQuery e collectionId query w =
     (let w1 = addLocalQuery e collectionId query w
      in case mustGetLocalCollection e w1 collectionId of
           Inl err \<Rightarrow> (Some err, w1)
         | Inr localCollection \<Rightarrow>
             if \<not> user e then (None, w1)
             else if truthy_str (serverId localCollection)
               then addRemoteQuery e collectionId [query] w1
               else (None, w1))"

definition updateQuery :: "env \<Rightarrow> cid \<Rightarrow> string \<Rightarrow> query \<Rightarrow> world \<Rightarrow> outcome" where
  "updateQuery e collectionId queryId query w =
     (let w1 = updateLocalQuery e collectionId queryId query w
      in if \<not> user e then (None, w1)
         else case mustGetLocalCollection e w1 collectionId of
           Inl err \<Rightarrow> (Some err, w1)
         | Inr localCollection \<Rightarrow>
             if \<not> truthy_str (serverId localCollection) then (None, w1)
             else
               (case getLocalQuery e w1 collectionId (Some queryId) of
                  None \<Rightarrow> addRemoteQuery e collectionId [query] w1
                | Some localQuery \<Rightarrow>
                    if \<not> truthy_str (q_serverId localQuery)
                    then addRemoteQuery e collectionId [query] w1
                    else (None, w1\<lparr>api_calls := api_calls w1 @
                            [Api_updateQuery (the (q_serverId localQuery)) query]\<rparr>)))"

definition deleteQuery :: "env \<Rightarrow> cid \<Rightarrow> query \<Rightarrow> world \<Rightarrow> outcome" where
  "deleteQuery e collectionId query w =
     (case mustGetLocalCollection e w collectionId of
        Inl err \<Rightarrow> (Some err, w)
      | Inr localCollection \<Rightarrow>
          (let localQuery = getLocalQuery e w collectionId (q_id query);
               w1 = deleteLocalQuery e collectionId query w
           in if \<not> user e then (None, w1)
              else if \<not> truthy_str (serverId localCollection) then (None, w1)
              else if \<not> truthy_str (q_id query) then (None, w1)
              else (case localQuery of
                      None \<Rightarrow> (None, w1)
                    | Some lq \<Rightarrow>
                        if \<not> truthy_str (q_serverId lq) then (None, w1)
                        else (None, w1\<lparr>api_calls := api_calls w1 @
                                [Api_deleteQuery (the (q_serverId lq))]\<rparr>))))"

section \<open>Deleting a collection\<close>

definition deleteLocalCollection :: "env \<Rightarrow> cid \<Rightarrow> world \<Rightarrow> world" where
  "deleteLocalCollection e collectionId w =
     w\<lparr>queryCollections :=
         table_delete (table_delete (queryCollections w) collectionId)
           (getAlternateCollectionID (Number e) collectionId)\<rparr>"

definition deleteCollection :: "env \<Rightarrow> cid \<Rightarrow> world \<Rightarrow> outcome" where
  "deleteCollection e collectionId w =
     (case mustGetLocalCollection e w collectionId of
        Inl err \<Rightarrow> (Some err, w)
      | Inr localCollection \<Rightarrow>
          (let w1 = deleteLocalCollection e collectionId w
           in if \<not> user e then (None, w1)
              else if \<not> truthy_str (serverId localCollection) then (None, w1)
              else (None, w1\<lparr>api_calls := api_calls w1 @
                      [Api_deleteCollection (the (serverId localCollection))]\<rparr>)))"

section \<open>Creating and replacing a collection\<close>

text \<open>
  \<^verbatim>\<open>updateLocalCollection\<close>: the callback replaces the whole record
  (\<^verbatim>\<open>ctx.value = modifiedCollection\<close>) and stamps \<^verbatim>\<open>updated_at\<close>. A row selected
  through the alternate id is overwritten with the same record.
\<close>

definition updateLocalCollection :: "env \<Rightarrow> cid \<Rightarrow> collection \<Rightarrow> world \<Rightarrow> world" where
  "updateLocalCollection e collectionId modifiedCollection w =
     updateCollectionByID e collectionId
       (\<lambda>collection. modifiedCollection\<lparr>updated_at := Some (now e)\<rparr>) w"

text \<open>
  \<^verbatim>\<open>getSubcollectionParentPath\<close>: an absent parent counts as one with an empty
  \<^verbatim>\<open>parentPath\<close>.
\<close>

definition getSubcollectionParentPath :: "env \<Rightarrow> world \<Rightarrow> cid \<Rightarrow> string" where
  "getSubcollectionParentPath e w parentCollectionId =
     (case getCollectionByID (Number e) (queryCollections w) parentCollectionId of
        None \<Rightarrow> []
      | Some parentCollection \<Rightarrow> (case parentPath parentCollection of None \<Rightarrow> [] | Some p \<Rightarrow> p))
       @ COLLECTION_PATH_SEPARATOR # id_str parentCollectionId"

text \<open>
  \<^verbatim>\<open>createLocalCollection\<close>: every query gets an id from \<^verbatim>\<open>uuid()\<close>, in order, then the
  collection gets one; \<^verbatim>\<open>queryCollections.add\<close> appends the row. The result is the new
  state and the key of the new row.
\<close>

fun stamp_queries :: "env \<Rightarrow> nat \<Rightarrow> query list \<Rightarrow> query list" where
  "stamp_queries e n [] = []"
| "stamp_queries e n (query # qs) =
     query\<lparr>q_id := Some (uuid e n), q_created_at := Some (now e), q_updated_at := Some (now e)\<rparr>
       # stamp_queries e (Suc n) qs"

definition createLocalCollection :: "env \<Rightarrow> collection \<Rightarrow> cid option \<Rightarrow> world \<Rightarrow> world \<times> cid" where
  "createLocalCollection e collection parentCollectionId w =
     (let parentPath' = (if truthy_id parentCollectionId
                         then getSubcollectionParentPath e w (the parentCollectionId) else []);
          n = uuid_count w;
          qs = stamp_queries e n (queries collection);
          newId = StrId (uuid e (n + length (queries collection)));
          row = collection\<lparr>queries := qs, c_id := Some newId, parentPath := Some parentPath',
                             created_at := Some (now e), updated_at := Some (now e)\<rparr>
      in (w\<lparr>queryCollections := queryCollections w @ [row],
             uuid_count := Suc (n + length (queries collection))\<rparr>, newId))"

section \<open>Pulling the remote collections\<close>

definition timestampDiffOffset :: int where
  "timestampDiffOffset = 2 * 60 * 1000"

text \<open>
  \<^verbatim>\<open>serverDate.getTime() > localDate.getTime() + timestampDiffOffset\<close>; a comparison
  with \<^verbatim>\<open>NaN\<close> is false.
\<close>

definition server_is_newer :: "int option \<Rightarrow> int option \<Rightarrow> bool" where
  "server_is_newer serverDate localDate =
     (case serverDate of
        None \<Rightarrow> False
      | Some s \<Rightarrow> (case localDate of None \<Rightarrow> False | Some l \<Rightarrow> s > l + timestampDiffOffset))"

text \<open>
  The body of \<^verbatim>\<open>serverCollection.queries.forEach\<close>: one pass over the local queries,
  then the title is taken from the server.
\<close>

definition merge_server_query :: "server_collection \<Rightarrow> collection \<Rightarrow> server_query \<Rightarrow> collection" where
  "merge_server_query serverCollection matchedCollection serverQuery =
     matchedCollection
       \<lparr>queries :=
          map (\<lambda>query.
                 if q_serverId query = Some (sq_id serverQuery)
                    \<and> server_is_newer (sq_updatedAt serverQuery) (q_updated_at query)
                 then (sq_content serverQuery)\<lparr>q_serverId := Some (sq_id serverQuery)\<rparr>
                 else query)
            (queries matchedCollection),
        title := collectionName serverCollection\<rparr>"

definition merge_server_collection :: "server_collection \<Rightarrow> collection \<Rightarrow> collection" where
  "merge_server_collection serverCollection matchedCollection =
     foldl (merge_server_query serverCollection) matchedCollection (sc_queries serverCollection)"

text \<open>
  \<^verbatim>\<open>localCollections\<close> is the array \<^verbatim>\<open>getAll()\<close> returned before the loop; the matched
  element is an object of that array and is changed in place.
\<close>

fun update_first :: "('a \<Rightarrow> bool) \<Rightarrow> 'a \<Rightarrow> 'a list \<Rightarrow> 'a list" where
  "update_first P y [] = []"
| "update_first P y (x # xs) = (if P x then y # xs else x # update_first P y xs)"

definition syncCollection ::
  "env \<Rightarrow> server_collection \<Rightarrow> collection list \<times> world \<Rightarrow> collection list \<times> world" where
  "syncCollection e serverCollection st =
     (let localCollections = fst st; w = snd st;
          matches = (\<lambda>collection. serverId collection = Some (sc_id serverCollection))
      in case find matches localCollections of
           Some matchedCollection \<Rightarrow>
             if server_is_newer (sc_updatedAt serverCollection) (updated_at matchedCollection)
             then
               (let merged = merge_server_collection serverCollection matchedCollection
                in if truthy_id (c_id merged)
                   then
                     (let w1 = updateLocalCollection e (the (c_id merged)) merged w;
                          merged1 = (if list_ex (selected_by_id e (the (c_id merged))) (queryCollections w)
                                     then merged\<lparr>updated_at := Some (now e)\<rparr> else merged)
                      in (update_first matches merged1 localCollections, w1))
                   else (update_first matches merged localCollections, w))
             else (localCollections, w)
         | None \<Rightarrow>
             (let localCollection =
                    \<lparr>c_id = None, title = collectionName serverCollection, parentPath = None,
                     serverId = Some (sc_id serverCollection),
                     queries = map (\<lambda>serverQuery.
                                 (sq_content serverQuery)\<lparr>q_serverId := Some (sq_id serverQuery)\<rparr>)
                               (sc_queries serverCollection),
                     created_at = None, updated_at = None\<rparr>
              in (localCollections, fst (createLocalCollection e localCollection None w))))"

definition syncRemoteToLocal :: "env \<Rightarrow> server_collection list \<Rightarrow> world \<Rightarrow> world" where
  "syncRemoteToLocal e serverCollections w =
     (if \<not> user e then w
      else if serverCollections = [] then w
      else snd (foldl (\<lambda>st serverCollection. syncCollection e serverCollection st)
                  (queryCollections w, w) serverCollections))"

section \<open>Moving a collection\<close>

text \<open>
  \<^verbatim>\<open>moveLocalCollection\<close>. The transaction makes the call atomic: an error leaves the table
  as it was. The \<^verbatim>\<open>parentPath\<close> index holds no row without a \<^verbatim>\<open>parentPath\<close>, so
  \<^verbatim>\<open>startsWith\<close> selects none of them; \<^verbatim>\<open>c.parentPath?.replace(...)\<close> of an absent
  \<^verbatim>\<open>parentPath\<close> is \<^verbatim>\<open>undefined\<close>.
\<close>

definition moveLocalCollection :: "env \<Rightarrow> cid \<Rightarrow> cid \<Rightarrow> world \<Rightarrow> outcome" where
  "moveLocalCollection e collectionId newParentCollectionId w =
     (case getCollectionByID (Number e) (queryCollections w) collectionId of
        None \<Rightarrow> (Some Could_not_retrieve_collection, w)
      | Some collection \<Rightarrow>
          (case getCollectionByID (Number e) (queryCollections w) newParentCollectionId of
             None \<Rightarrow> (Some Could_not_retrieve_parent_collection, w)
           | Some newParentCollection \<Rightarrow>
               (let newParentSubcollectionParentPath =
                      subcollectionParentPath newParentCollection newParentCollectionId;
                    collectionParentPath =
                      (case parentPath collection of None \<Rightarrow> [] | Some p \<Rightarrow> p);
                    parentPath' = collectionParentPath @ COLLECTION_PATH_SEPARATOR # id_str collectionId
                in (None,
                    w\<lparr>queryCollections :=
                        table_modify
                          (\<lambda>r. selected_by_id e collectionId r
                               \<or> startsWith (parentPath r) parentPath')
                          (\<lambda>c. c\<lparr>parentPath :=
                                  map_option
                                    (\<lambda>p. js_replace p collectionParentPath
                                           newParentSubcollectionParentPath)
                                    (parentPath c)\<rparr>)
                          (queryCollections w)\<rparr>))))"

definition moveCollection :: "env \<Rightarrow> cid \<Rightarrow> cid \<Rightarrow> world \<Rightarrow> outcome" where
  "moveCollection e collectionId newParentCollectionId w =
     moveLocalCollection e collectionId newParentCollectionId w"

section \<open>Trees of collections\<close>

text \<open>
  \<^verbatim>\<open>getParentCollectionId\<close>: the last segment of \<^verbatim>\<open>parentPath\<close>, or \<^verbatim>\<open>undefined\<close>
  when there is no path or the segment is empty.
\<close>

definition getParentCollectionId :: "collection \<Rightarrow> string option" where
  "getParentCollectionId collection =
     (case parentPath collection of
        None \<Rightarrow> None
      | Some p \<Rightarrow>
          (case rev (js_split COLLECTION_PATH_SEPARATOR p) of
             [] \<Rightarrow> None
           | seg # segs \<Rightarrow> if seg = [] then None else Some seg))"

text \<open>
  \<^verbatim>\<open>getCollectionTrees\<close> builds its trees as objects that refer to each other:
  \<^verbatim>\<open>collectionMap\<close> maps the string of an id to the tree object made for it, and a tree
  object is attached by pushing a reference to it onto the \<^verbatim>\<open>collections\<close> of its
  parent. An object is identified by its key in \<^verbatim>\<open>collectionMap\<close>; \<open>tree_objects\<close>
  gives for a key the fields of the object and the keys of the objects in its
  \<^verbatim>\<open>collections\<close>; \<open>roots\<close> is the returned array, as keys.
\<close>

type_synonym tree_objects = "string \<rightharpoonup> collection \<times> string list"

text \<open>The first \<^verbatim>\<open>forEach\<close>: one tree object per collection, a later one replacing an
  earlier one with the same key.\<close>

fun make_tree_objects :: "collection list \<Rightarrow> tree_objects \<Rightarrow> error + tree_objects" where
  "make_tree_objects [] collectionMap = Inr collectionMap"
| "make_tree_objects (collection # rest) collectionMap =
     (if \<not> truthy_id (c_id collection) then Inl All_collections_must_have_an_ID_to_get_a_tree
      else make_tree_objects rest
             (collectionMap(opt_id_str (c_id collection) \<mapsto>
                (collection\<lparr>c_id := Some (StrId (opt_id_str (c_id collection)))\<rparr>, []))))"

text \<open>The second \<^verbatim>\<open>forEach\<close>: every collection's tree object becomes a root or is pushed
  onto its parent's \<^verbatim>\<open>collections\<close>; \<^verbatim>\<open>parentCollection?.collections?.push\<close> does
  nothing when \<^verbatim>\<open>collectionMap\<close> has no object for the parent.\<close>

fun attach_tree_objects ::
  "collection list \<Rightarrow> tree_objects \<times> string list \<Rightarrow> tree_objects \<times> string list" where
  "attach_tree_objects [] st = st"
| "attach_tree_objects (collection # rest) (collectionMap, roots) =
     (let key = opt_id_str (c_id collection)
      in case collectionMap key of
           None \<Rightarrow> attach_tree_objects rest (collectionMap, roots)
         | Some collectionTree \<Rightarrow>
             if \<not> truthy_str (parentPath collection)
             then attach_tree_objects rest (collectionMap, roots @ [key])
             else
               (case getParentCollectionId collection of
                  None \<Rightarrow> attach_tree_objects rest (collectionMap, roots @ [key])
                | Some parentCollectionId \<Rightarrow>
                    (case collectionMap parentCollectionId of
                       None \<Rightarrow> attach_tree_objects rest (collectionMap, roots)
                     | Some parentCollection \<Rightarrow>
                         attach_tree_objects rest
                           (collectionMap(parentCollectionId \<mapsto>
                              (fst parentCollection, snd parentCollection @ [key])),
                            roots))))"

definition getCollectionTrees :: "collection list \<Rightarrow> error + tree_objects \<times> string list" where
  "getCollectionTrees collections =
     (case make_tree_objects collections Map.empty of
        Inl err \<Rightarrow> Inl err
      | Inr collectionMap \<Rightarrow> Inr (attach_tree_objects collections (collectionMap, [])))"

text \<open>
  Reading the object with a given key as a tree, to a given depth: \<open>None\<close> when the
  objects below it go deeper (as they do when they refer to each other in a cycle).
\<close>

fun tree_at :: "nat \<Rightarrow> tree_objects \<Rightarrow> string \<Rightarrow> ctree option" where
  "tree_at 0 objs key = None"
| "tree_at (Suc n) objs key =
     (case objs key of
        None \<Rightarrow> None
      | Some obj \<Rightarrow> map_option (CTree (fst obj)) (those (map (tree_at n objs) (snd obj))))"

text \<open>
  The trees \<^verbatim>\<open>getCollectionTrees\<close> returns, read to the depth of the number of
  collections (no tree of that many objects is deeper).
\<close>

definition collection_trees :: "collection list \<Rightarrow> error + ctree list option" where
  "collection_trees collections =
     (case getCollectionTrees collections of
        Inl err \<Rightarrow> Inl err
      | Inr (objs, roots) \<Rightarrow> Inr (those (map (tree_at (length collections) objs) roots)))"

text \<open>\<^verbatim>\<open>getCollectionListFromTree\<close>, the flattening used for export.\<close>

fun getCollectionListFromTree :: "ctree \<Rightarrow> string \<Rightarrow> collection list" where
  "getCollectionListFromTree (CTree rootCollection collections) parentPath' =
     rootCollection\<lparr>parentPath := Some parentPath'\<rparr>
       # concat (map (\<lambda>ct. getCollectionListFromTree ct
                       (parentPath' @ COLLECTION_PATH_SEPARATOR # opt_id_str (c_id rootCollection)))
                  collections)"

text \<open>Flattening every tree of a forest with the default \<^verbatim>\<open>parentPath = ''\<close>.\<close>

definition flatten_trees :: "ctree list \<Rightarrow> collection list" where
  "flatten_trees trees = concat (map (\<lambda>tree. getCollectionListFromTree tree []) trees)"

text \<open>Building the trees of a flat list and flattening them again.\<close>

definition rebuilt_list :: "collection list \<Rightarrow> collection list option" where
  "rebuilt_list collections =
     (case collection_trees collections of
        Inl err \<Rightarrow> None
      | Inr None \<Rightarrow> None
      | Inr (Some trees) \<Rightarrow> Some (flatten_trees trees))"

text \<open>
  \<^verbatim>\<open>remapCollectionIDsToCollectionList\<close>, the flattening used for import. The calls of
  \<^verbatim>\<open>uuid()\<close> are counted: the result is the list and the count after the call.
\<close>

fun remapCollectionIDsToCollectionList ::
    "env \<Rightarrow> ctree \<Rightarrow> string \<Rightarrow> nat \<Rightarrow> collection list \<times> nat"
  and remap_subcollections ::
    "env \<Rightarrow> ctree list \<Rightarrow> string \<Rightarrow> nat \<Rightarrow> collection list \<times> nat" where
  "remapCollectionIDsToCollectionList e (CTree rootCollection collections) parentPath' n =
     (let newId = uuid e n;
          (subcollections, n') =
             remap_subcollections e collections
               (parentPath' @ COLLECTION_PATH_SEPARATOR # newId) (Suc n)
      in (rootCollection\<lparr>c_id := Some (StrId newId), parentPath := Some parentPath'\<rparr>
            # subcollections, n'))"
| "remap_subcollections e [] parentPath' n = ([], n)"
| "remap_subcollections e (ct # cts) parentPath' n =
     (let (l, n1) = remapCollectionIDsToCollectionList e ct parentPath' n;
          (ls, n2) = remap_subcollections e cts parentPath' n1
      in (l @ ls, n2))"

section \<open>What the query operations leave alone\<close>

text \<open>The collection-level fields the query operations have no business with.\<close>

definition collection_stamps :: "world \<Rightarrow> (cid option \<times> int option \<times> int option) list" where
  "collection_stamps w = map (\<lambda>r. (c_id r, created_at r, updated_at r)) (queryCollections w)"

section \<open>What the import is compared with\<close>

text \<open>
  The tree with the ids the import assigns, and nothing else changed: the nodes are
  numbered in pre-order, and the node numbered \<open>k\<close> gets the \<open>k\<close>-th generated id.
\<close>

fun reassigned_tree :: "env \<Rightarrow> ctree \<Rightarrow> nat \<Rightarrow> ctree \<times> nat"
  and reassigned_trees :: "env \<Rightarrow> ctree list \<Rightarrow> nat \<Rightarrow> ctree list \<times> nat" where
  "reassigned_tree e (CTree c cs) n =
     (let (cs', n') = reassigned_trees e cs (Suc n)
      in (CTree (c\<lparr>c_id := Some (StrId (uuid e n))\<rparr>) cs', n'))"
| "reassigned_trees e [] n = ([], n)"
| "reassigned_trees e (t # ts) n =
     (let (t', n1) = reassigned_tree e t n;
          (ts', n2) = reassigned_trees e ts n1
      in (t' # ts', n2))"

text \<open>The shape and contents of a tree, ids left out.\<close>

fun without_ids :: "ctree \<Rightarrow> ctree" where
  "without_ids (CTree c cs) = CTree (c\<lparr>c_id := None\<rparr>) (map without_ids cs)"

fun tree_size :: "ctree \<Rightarrow> nat" where
  "tree_size (CTree c cs) = Suc (sum_list (map tree_size cs))"

text \<open>The nodes of a tree in pre-order.\<close>

fun tree_nodes :: "ctree \<Rightarrow> collection list" where
  "tree_nodes (CTree c cs) = c # concat (map tree_nodes cs)"

text \<open>A record of a flat list without the two fields the import sets.\<close>

definition without_id_and_path :: "collection \<Rightarrow> collection" where
  "without_id_and_path c = c\<lparr>c_id := None, parentPath := None\<rparr>"

section \<open>Well-formed flat lists\<close>

text \<open>
  The key of a collection's tree object, and the path of a collection of a flat list:
  what its subcollections carry as \<^verbatim>\<open>parentPath\<close> (section 3 of the specification: a
  child's path is the parent's path, \<^verbatim>\<open>/\<close>, the parent's id).
\<close>

definition collection_key :: "collection \<Rightarrow> string" where
  "collection_key c = opt_id_str (c_id c)"

definition own_path :: "collection \<Rightarrow> string" where
  "own_path c = subcollectionParentPath c (the (c_id c))"

text \<open>
  A flat list is well formed when its ids are pairwise different non-empty strings
  without \<^verbatim>\<open>/\<close>, and every \<^verbatim>\<open>parentPath\<close> is either \<^verbatim>\<open>''\<close> or the path of a
  collection of the list.
\<close>

definition well_formed_list :: "collection list \<Rightarrow> bool" where
  "well_formed_list L \<longleftrightarrow>
     distinct (map c_id L)
     \<and> list_all (\<lambda>c. case c_id c of
                       Some (StrId s) \<Rightarrow> s \<noteq> [] \<and> COLLECTION_PATH_SEPARATOR \<notin> set s
                     | _ \<Rightarrow> False) L
     \<and> list_all (\<lambda>c. parentPath c = Some []
                     \<or> list_ex (\<lambda>p. parentPath c = Some (own_path p)) L) L"

text \<open>The subcollections of a collection in a flat list, and the roots of the list.\<close>

definition children_of :: "collection list \<Rightarrow> collection \<Rightarrow> collection list" where
  "children_of L c = filter (\<lambda>d. parentPath d = Some (own_path c)) L"

definition roots_of :: "collection list \<Rightarrow> collection list" where
  "roots_of L = filter (\<lambda>d. parentPath d = Some []) L"

text \<open>What the second pass of \<^verbatim>\<open>getCollectionTrees\<close> decides for a collection.\<close>

definition is_root :: "collection \<Rightarrow> bool" where
  "is_root c \<longleftrightarrow> \<not> truthy_str (parentPath c) \<or> getParentCollectionId c = None"

definition attached_to :: "string \<Rightarrow> collection \<Rightarrow> bool" where
  "attached_to k c \<longleftrightarrow> truthy_str (parentPath c) \<and> getParentCollectionId c = Some k"

section \<open>Concrete inputs\<close>

definition stored42 :: collection where
  "stored42 = \<lparr>c_id = Some (NumId 42), title = ''Saved'', parentPath = Some [],
     serverId = None, queries = [], created_at = Some 1000, updated_at = Some 1000\<rparr>"

definition child7 :: collection where
  "child7 = \<lparr>c_id = Some (NumId 7), title = ''Child'', parentPath = Some ''/42'',
     serverId = None, queries = [], created_at = Some 2000, updated_at = Some 2000\<rparr>"

definition env0 :: env where
  "env0 = \<lparr>Number = decimal_Number, now = 5000, uuid = (\<lambda>k. replicate (Suc k) (CHR ''u'')),
     user = False, api_createQueries = (\<lambda>sid qs. [])\<rparr>"

definition world42 :: world where
  "world42 = \<lparr>queryCollections = [stored42, child7], uuid_count = 0, api_calls = []\<rparr>"

definition legacy_query :: query where
  "legacy_query = \<lparr>q_id = None, q_serverId = None, windowName = Some ''Window 1'',
     q_created_at = None, q_updated_at = None, content = Some ''{ me }''\<rparr>"

definition stored_with_query :: collection where
  "stored_with_query = stored42\<lparr>queries := [legacy_query]\<rparr>"

definition other_query :: query where
  "other_query = legacy_query\<lparr>windowName := Some ''Window 2''\<rparr>"

definition local_query :: query where
  "local_query = \<lparr>q_id = Some ''q-1'', q_serverId = Some ''sq-1'', windowName = Some ''Window 1'',
     q_created_at = Some 0, q_updated_at = Some 1000, content = Some ''{ old }''\<rparr>"

definition local_synced :: collection where
  "local_synced = \<lparr>c_id = Some (StrId ''c-1''), title = ''Mine'', parentPath = Some [],
     serverId = Some ''s-1'', queries = [local_query], created_at = Some 0,
     updated_at = Some 1000\<rparr>"

definition remote_query :: server_query where
  "remote_query = \<lparr>sq_id = ''sq-1'', sq_updatedAt = Some 181000,
     sq_content = \<lparr>q_id = Some ''q-1'', q_serverId = None, windowName = Some ''Window 1'',
       q_created_at = Some 0, q_updated_at = Some 181000, content = Some ''{ new }''\<rparr>\<rparr>"

definition remote_3min :: server_collection where
  "remote_3min = \<lparr>sc_id = ''s-1'', collectionName = ''Theirs'', sc_updatedAt = Some 181000,
     sc_queries = [remote_query]\<rparr>"

definition remote_1min :: server_collection where
  "remote_1min = remote_3min\<lparr>sc_updatedAt := Some 61000\<rparr>"

definition remote_no_queries :: server_collection where
  "remote_no_queries = remote_3min\<lparr>sc_queries := []\<rparr>"

definition env_user :: env where
  "env_user = env0\<lparr>user := True, now := 900000\<rparr>"

definition world_synced :: world where
  "world_synced = \<lparr>queryCollections = [local_synced], uuid_count = 0, api_calls = []\<rparr>"

text \<open>
  A table from before collections had a \<^verbatim>\<open>parentPath\<close>: the root collection \<^verbatim>\<open>1\<close> has
  none. Collection \<^verbatim>\<open>2\<close> was created under it later; \<^verbatim>\<open>3\<close> is another root.
\<close>

definition legacy_root :: collection where
  "legacy_root = \<lparr>c_id = Some (NumId 1), title = ''Legacy'', parentPath = None,
     serverId = None, queries = [], created_at = None, updated_at = None\<rparr>"

definition legacy_child :: collection where
  "legacy_child = \<lparr>c_id = Some (NumId 2), title = ''Inside'', parentPath = Some ''/1'',
     serverId = None, queries = [], created_at = Some 10, updated_at = Some 10\<rparr>"

definition target_root :: collection where
  "target_root = \<lparr>c_id = Some (NumId 3), title = ''Target'', parentPath = Some [],
     serverId = None, queries = [], created_at = Some 20, updated_at = Some 20\<rparr>"

definition legacy_world :: world where
  "legacy_world = \<lparr>queryCollections = [legacy_root, legacy_child, target_root],
     uuid_count = 0, api_calls = []\<rparr>"

text \<open>A collection whose parent \<^verbatim>\<open>a\<close> is not in the list.\<close>

definition orphan :: collection where
  "orphan = \<lparr>c_id = Some (StrId ''b''), title = ''B'', parentPath = Some ''/a'',
     serverId = None, queries = [], created_at = Some 1, updated_at = Some 1\<rparr>"

text \<open>
  A nested collection \<^verbatim>\<open>a\<close> (under \<^verbatim>\<open>x\<close>) with its subcollection \<^verbatim>\<open>b\<close>: the list
  \<^verbatim>\<open>getCollectionTreeByCollectionId\<close> passes when \<^verbatim>\<open>a\<close> is exported.
\<close>

definition nested_a :: collection where
  "nested_a = \<lparr>c_id = Some (StrId ''a''), title = ''A'', parentPath = Some ''/x'',
     serverId = None, queries = [], created_at = Some 1, updated_at = Some 1\<rparr>"

definition nested_b :: collection where
  "nested_b = \<lparr>c_id = Some (StrId ''b''), title = ''B'', parentPath = Some ''/x/a'',
     serverId = None, queries = [], created_at = Some 2, updated_at = Some 2\<rparr>"

text \<open>An exported document: a collection with one subcollection.\<close>

definition document :: ctree where
  "document = CTree (stored42\<lparr>c_id := Some (StrId ''42'')\<rparr>)
                [CTree (child7\<lparr>c_id := Some (StrId ''7'')\<rparr>) []]"

text \<open>A root collection and its subcollection, as the service stores them.\<close>

definition flat_a :: collection where
  "flat_a = \<lparr>c_id = Some (StrId ''a''), title = ''A'', parentPath = Some [],
     serverId = None, queries = [], created_at = Some 1, updated_at = Some 1\<rparr>"

definition flat_b :: collection where
  "flat_b = \<lparr>c_id = Some (StrId ''b''), title = ''B'', parentPath = Some ''/a'',
     serverId = None, queries = [], created_at = Some 2, updated_at = Some 2\<rparr>"

text \<open>
  Roots \<^verbatim>\<open>1\<close>, \<^verbatim>\<open>12\<close> and \<^verbatim>\<open>3\<close>, and a subcollection \<^verbatim>\<open>13\<close> of \<^verbatim>\<open>12\<close>.
\<close>

definition numbered_world :: world where
  "numbered_world = \<lparr>queryCollections =
       [target_root\<lparr>c_id := Some (NumId 1), title := ''One''\<rparr>,
        target_root\<lparr>c_id := Some (NumId 12), title := ''Twelve''\<rparr>,
        target_root\<lparr>c_id := Some (NumId 13), title := ''Thirteen'', parentPath := Some ''/12''\<rparr>,
        target_root],
     uuid_count = 0, api_calls = []\<rparr>"

chapter \<open>Properties\<close>

section \<open>Alternate-id lookup\<close>

lemma num_str_42: "num_str 42 = ''42''"
  by (simp add: num_str_def nat_str.simps [of 42] nat_str.simps [of 4] digit_char_def)

lemma decimal_Number_42: "decimal_Number ''42'' = Some 42"
  by (simp add: decimal_Number_def digit_val_def)

lemma decimal_Number_42x: "decimal_Number ''42x'' = None"
  by (simp add: decimal_Number_def digit_val_def)

text \<open>
  Claim C7. A collection stored under a numeric id \<open>n\<close> (and not a second time under the
  string of \<open>n\<close>) is returned by \<^verbatim>\<open>getCollectionByID\<close> for the number and for its
  string: for \<^verbatim>\<open>42\<close> and \<^verbatim>\<open>"42"\<close>. For a string \<open>s\<close> that is not a number, such as
  \<^verbatim>\<open>"42x"\<close>, the alternate id is the empty string, never \<^verbatim>\<open>NaN\<close>, and with no record
  stored for it (none under \<open>s\<close>, none under the empty string) the lookup returns
  nothing. The function has no failing branch: its result is an option.
\<close>

theorem getCollectionByID_alternate:
  assumes "N (num_str n) = Some n"
    and "table_get t (NumId n) = Some c"
    and "table_get t (StrId (num_str n)) = None"
    and "N s = None"
    and "table_get t (StrId s) = None"
    and "table_get t (StrId []) = None"
  shows "getCollectionByID N t (NumId n) = Some c
       \<and> getCollectionByID N t (StrId (num_str n)) = Some c
       \<and> getAlternateCollectionID N (StrId s) = StrId []
       \<and> getCollectionByID N t (StrId s) = None"
  using assms by (simp add: getCollectionByID_def)

theorem getCollectionByID_alternate_witness:
  "getCollectionByID decimal_Number [stored42] (NumId 42) = Some stored42
   \<and> getCollectionByID decimal_Number [stored42] (StrId ''42'') = Some stored42
   \<and> getAlternateCollectionID decimal_Number (StrId ''42x'') = StrId []
   \<and> getCollectionByID decimal_Number [stored42] (StrId ''42x'') = None"
  using getCollectionByID_alternate [of decimal_Number 42 "[stored42]" stored42 "''42x''"]
  by (simp add: num_str_42 decimal_Number_42 decimal_Number_42x table_get_def stored42_def)

section \<open>Deleting a collection leaves its descendants\<close>

lemma table_delete_twice:
  "table_delete (table_delete t k) k' = filter (\<lambda>r. c_id r \<noteq> Some k \<and> c_id r \<noteq> Some k') t"
  by (induction t) (auto simp: table_delete_def)

text \<open>
  Claim C8. For a stored collection, \<^verbatim>\<open>deleteCollection(id)\<close> does not fail and leaves
  the table with exactly the rows stored under neither \<open>id\<close> nor its alternate id, each
  as it was and in the same order. In particular every descendant (a row whose
  \<^verbatim>\<open>parentPath\<close> starts with the path of the deleted collection, stored under an id of
  its own) is still in the table.
\<close>

theorem deleteCollection_keeps_descendants:
  assumes "getCollectionByID (Number e) (queryCollections w) k = Some c"
  shows "fst (deleteCollection e k w) = None
       \<and> queryCollections (snd (deleteCollection e k w)) =
           filter (\<lambda>r. c_id r \<noteq> Some k \<and> c_id r \<noteq> Some (getAlternateCollectionID (Number e) k))
             (queryCollections w)
       \<and> (\<forall>r \<in> set (queryCollections w).
             startsWith (parentPath r) (subcollectionParentPath c k)
             \<and> c_id r \<noteq> Some k \<and> c_id r \<noteq> Some (getAlternateCollectionID (Number e) k)
             \<longrightarrow> r \<in> set (queryCollections (snd (deleteCollection e k w))))"
  using assms
  by (simp add: deleteCollection_def mustGetLocalCollection_def deleteLocalCollection_def
      table_delete_twice Let_def)

theorem deleteCollection_keeps_descendants_witness:
  "fst (deleteCollection env0 (NumId 42) world42) = None
   \<and> queryCollections (snd (deleteCollection env0 (NumId 42) world42)) = [child7]
   \<and> startsWith (parentPath child7) (subcollectionParentPath stored42 (NumId 42))"
proof -
  have found: "getCollectionByID (Number env0) (queryCollections world42) (NumId 42) = Some stored42"
    by (simp add: getCollectionByID_def table_get_def world42_def stored42_def)
  have kept: "filter (\<lambda>r. c_id r \<noteq> Some (NumId 42)
        \<and> c_id r \<noteq> Some (getAlternateCollectionID (Number env0) (NumId 42)))
      (queryCollections world42) = [child7]"
    by (simp add: world42_def stored42_def child7_def)
  have desc: "startsWith (parentPath child7) (subcollectionParentPath stored42 (NumId 42))"
    by (simp add: startsWith_def subcollectionParentPath_def COLLECTION_PATH_SEPARATOR_def
        child7_def stored42_def num_str_42)
  from deleteCollection_keeps_descendants [OF found] kept desc show ?thesis
    by simp
qed

section \<open>Deleting a query that matches nothing\<close>

lemma table_get_modify:
  assumes "\<And>r. c_id (cb r) = c_id r"
  shows "table_get (table_modify sel cb t) k =
         map_option (\<lambda>r. if sel r then cb r else r) (table_get t k)"
  using assms by (induction t) (auto simp: table_get_def table_modify_def)

lemma getCollectionByID_modify:
  assumes "\<And>r. c_id (cb r) = c_id r"
  shows "getCollectionByID N (table_modify sel cb t) k =
         map_option (\<lambda>r. if sel r then cb r else r) (getCollectionByID N t k)"
  by (simp add: getCollectionByID_def table_get_modify [OF assms] split: option.splits)

text \<open>
  Claim C9. For an existing collection, \<^verbatim>\<open>deleteQuery\<close> with a query that has no id
  (\<^verbatim>\<open>undefined\<close> or empty) and whose \<^verbatim>\<open>windowName\<close> is that of no query of the
  collection does not fail, sends nothing to the remote API, and leaves the collection
  (its \<^verbatim>\<open>queries\<close> array included) as it was.
\<close>

theorem deleteQuery_without_id_or_match:
  assumes "getCollectionByID (Number e) (queryCollections w) k = Some c"
    and "\<not> truthy_str (q_id query)"
    and "\<forall>collectionQuery \<in> set (queries c). windowName collectionQuery \<noteq> windowName query"
  shows "fst (deleteQuery e k query w) = None
       \<and> getCollectionByID (Number e) (queryCollections (snd (deleteQuery e k query w))) k = Some c
       \<and> api_calls (snd (deleteQuery e k query w)) = api_calls w"
proof -
  let ?w1 = "deleteLocalQuery e k query w"
  have keep: "filter (\<lambda>collectionQuery. windowName query \<noteq> windowName collectionQuery) (queries c)
      = queries c"
    using assms(3) by (auto simp: filter_id_conv)
  have same: "getCollectionByID (Number e) (queryCollections ?w1) k = Some c"
    using assms(1,2) keep
    by (simp add: deleteLocalQuery_def updateCollectionByID_def Let_def getCollectionByID_modify)
  have calls: "api_calls ?w1 = api_calls w"
    by (simp add: deleteLocalQuery_def updateCollectionByID_def Let_def)
  have out: "deleteQuery e k query w = (None, ?w1)"
    using assms(1,2) by (simp add: deleteQuery_def mustGetLocalCollection_def Let_def)
  show ?thesis
    using same calls by (simp add: out)
qed

theorem deleteQuery_without_id_or_match_witness:
  "fst (deleteQuery env0 (StrId ''42'') other_query
          \<lparr>queryCollections = [stored_with_query], uuid_count = 0, api_calls = []\<rparr>) = None
   \<and> getCollectionByID decimal_Number
        (queryCollections (snd (deleteQuery env0 (StrId ''42'') other_query
          \<lparr>queryCollections = [stored_with_query], uuid_count = 0, api_calls = []\<rparr>)))
        (StrId ''42'') = Some stored_with_query"
proof -
  let ?w = "\<lparr>queryCollections = [stored_with_query], uuid_count = 0, api_calls = []\<rparr>"
  have found: "getCollectionByID (Number env0) (queryCollections ?w) (StrId ''42'') = Some stored_with_query"
    by (simp add: getCollectionByID_def table_get_def stored_with_query_def stored42_def env0_def
        decimal_Number_42)
  have noid: "\<not> truthy_str (q_id other_query)"
    by (simp add: other_query_def legacy_query_def)
  have nomatch: "\<forall>collectionQuery \<in> set (queries stored_with_query).
      windowName collectionQuery \<noteq> windowName other_query"
    by (simp add: stored_with_query_def other_query_def legacy_query_def)
  from deleteQuery_without_id_or_match [OF found noid nomatch] show ?thesis
    by (simp add: env0_def)
qed

section \<open>Query operations leave the collection's timestamps alone\<close>

lemma stamps_updateCollectionByID:
  assumes "\<And>r. c_id (cb r) = c_id r" "\<And>r. created_at (cb r) = created_at r"
    "\<And>r. updated_at (cb r) = updated_at r"
  shows "collection_stamps (updateCollectionByID e k cb w) = collection_stamps w"
  using assms
  by (simp add: collection_stamps_def updateCollectionByID_def table_modify_def Let_def)

lemma stamps_updateLocalQuery:
  "collection_stamps (updateLocalQuery e k queryId query w) = collection_stamps w"
  unfolding updateLocalQuery_def by (rule stamps_updateCollectionByID) (simp_all add: Let_def)

lemma stamps_deleteLocalQuery:
  "collection_stamps (deleteLocalQuery e k query w) = collection_stamps w"
  unfolding deleteLocalQuery_def by (rule stamps_updateCollectionByID) simp_all

lemma stamps_addLocalQuery_rows:
  "map (\<lambda>r. (c_id r, created_at r, updated_at r)) (fst (addLocalQuery_rows e sel query t n))
   = map (\<lambda>r. (c_id r, created_at r, updated_at r)) t"
  by (induction t arbitrary: n) (simp_all add: Let_def split_beta)

lemma stamps_addLocalQuery:
  "collection_stamps (addLocalQuery e k query w) = collection_stamps w"
  using stamps_addLocalQuery_rows [of e "selected_by_id e k" query "queryCollections w" "uuid_count w"]
  by (simp add: collection_stamps_def addLocalQuery_def Let_def split_beta)

lemma stamps_api_calls [simp]:
  "collection_stamps (w\<lparr>api_calls := cs\<rparr>) = collection_stamps w"
  by (simp add: collection_stamps_def)

lemma stamps_addRemoteQuery_loop:
  "collection_stamps (addRemoteQuery_loop e k qs idx ids w) = collection_stamps w"
  by (induction ids arbitrary: idx w) (simp_all add: stamps_updateLocalQuery)

lemma stamps_addRemoteQuery:
  "collection_stamps (snd (addRemoteQuery e k qs w)) = collection_stamps w"
  by (simp add: addRemoteQuery_def Let_def stamps_addRemoteQuery_loop split: sum.splits)

lemma stamps_addQuery:
  "collection_stamps (snd (addQuery e k query w)) = collection_stamps w"
  by (simp add: addQuery_def Let_def stamps_addRemoteQuery stamps_addLocalQuery split: sum.splits)

lemma stamps_updateQuery:
  "collection_stamps (snd (updateQuery e k queryId query w)) = collection_stamps w"
  by (simp add: updateQuery_def Let_def stamps_addRemoteQuery stamps_updateLocalQuery
      split: sum.splits option.splits)

lemma stamps_deleteQuery:
  "collection_stamps (snd (deleteQuery e k query w)) = collection_stamps w"
  by (simp add: deleteQuery_def Let_def stamps_deleteLocalQuery split: sum.splits option.splits)

text \<open>
  Claim C10. \<^verbatim>\<open>addQuery\<close>, \<^verbatim>\<open>updateQuery\<close> and \<^verbatim>\<open>deleteQuery\<close>, whatever they are
  called with and whether they end in an error or not, leave every row of the table with
  the id, the \<^verbatim>\<open>created_at\<close> and the \<^verbatim>\<open>updated_at\<close> it had: the collection-level
  timestamp that \<^verbatim>\<open>syncRemoteToLocal\<close> compares is not refreshed by a query edit.
\<close>

theorem query_operations_keep_collection_updated_at:
  "collection_stamps (snd (addQuery e k query w)) = collection_stamps w
   \<and> collection_stamps (snd (updateQuery e k queryId query w)) = collection_stamps w
   \<and> collection_stamps (snd (deleteQuery e k query w)) = collection_stamps w"
  by (simp add: stamps_addQuery stamps_updateQuery stamps_deleteQuery)

section \<open>The skew tolerance of the pull\<close>

lemma c_id_merge_server_collection [simp]:
  "c_id (merge_server_collection sc m) = c_id m"
proof -
  have "c_id (foldl (merge_server_query sc) m sqs) = c_id m" for sqs
    by (induction sqs arbitrary: m) (simp_all add: merge_server_query_def)
  then show ?thesis by (simp add: merge_server_collection_def)
qed

lemma updateLocalCollection_rows:
  "queryCollections (updateLocalCollection e k c w) =
   table_modify (selected_by_id e k) (\<lambda>r. c\<lparr>updated_at := Some (now e)\<rparr>) (queryCollections w)"
  by (simp add: updateLocalCollection_def updateCollectionByID_def)

text \<open>
  Claim C2. Let a remote collection match a local one by \<^verbatim>\<open>serverId\<close>. Unless the
  remote \<^verbatim>\<open>updatedAt\<close> is strictly greater than the local \<^verbatim>\<open>updated_at\<close> plus two
  minutes (120000 ms), the step of \<^verbatim>\<open>syncRemoteToLocal\<close> for it changes nothing, neither
  the table nor the local array. When it is greater, and the local collection has a
  (truthy) id, the rows stored under that id are replaced by the merged record, stamped
  with the time of the call.
\<close>

theorem syncCollection_skew_tolerance:
  assumes "find (\<lambda>c. serverId c = Some (sc_id sc)) locals = Some m"
  shows "(\<forall>s l. server_is_newer (Some s) (Some l) = (s > l + 120000))
       \<and> (\<not> server_is_newer (sc_updatedAt sc) (updated_at m)
            \<longrightarrow> syncCollection e sc (locals, w) = (locals, w))
       \<and> (server_is_newer (sc_updatedAt sc) (updated_at m) \<and> truthy_id (c_id m)
            \<longrightarrow> queryCollections (snd (syncCollection e sc (locals, w))) =
                table_modify (selected_by_id e (the (c_id m)))
                  (\<lambda>r. (merge_server_collection sc m)\<lparr>updated_at := Some (now e)\<rparr>)
                  (queryCollections w))"
  using assms
  by (simp add: syncCollection_def Let_def server_is_newer_def timestampDiffOffset_def
      updateLocalCollection_rows)

theorem syncCollection_skew_tolerance_witness:
  "syncRemoteToLocal env_user [remote_1min] world_synced = world_synced
   \<and> queryCollections (syncRemoteToLocal env_user [remote_3min] world_synced) =
       [\<lparr>c_id = Some (StrId ''c-1''), title = ''Theirs'', parentPath = Some [],
         serverId = Some ''s-1'',
         queries = [\<lparr>q_id = Some ''q-1'', q_serverId = Some ''sq-1'',
                     windowName = Some ''Window 1'', q_created_at = Some 0,
                     q_updated_at = Some 181000, content = Some ''{ new }''\<rparr>],
         created_at = Some 0, updated_at = Some 900000\<rparr>]"
proof -
  have matched: "find (\<lambda>c. serverId c = Some (sc_id sc)) (queryCollections world_synced)
      = Some local_synced" if "sc_id sc = ''s-1''" for sc :: server_collection
    using that by (simp add: world_synced_def local_synced_def)
  have one: "\<not> server_is_newer (sc_updatedAt remote_1min) (updated_at local_synced)"
    by (simp add: server_is_newer_def timestampDiffOffset_def remote_1min_def remote_3min_def
        local_synced_def)
  have three: "server_is_newer (sc_updatedAt remote_3min) (updated_at local_synced)
      \<and> truthy_id (c_id local_synced)"
    by (simp add: server_is_newer_def timestampDiffOffset_def remote_3min_def local_synced_def)
  have merged: "merge_server_collection remote_3min local_synced =
      local_synced\<lparr>title := ''Theirs'',
        queries := [(sq_content remote_query)\<lparr>q_serverId := Some ''sq-1''\<rparr>]\<rparr>"
    by (simp add: merge_server_collection_def merge_server_query_def remote_3min_def
        remote_query_def local_synced_def local_query_def server_is_newer_def
        timestampDiffOffset_def)
  have u: "user env_user" "now env_user = 900000"
    by (simp_all add: env_user_def env0_def)
  have a: "syncCollection env_user remote_1min (queryCollections world_synced, world_synced)
      = (queryCollections world_synced, world_synced)"
    using syncCollection_skew_tolerance [OF matched, of remote_1min env_user world_synced] one
    by (simp add: remote_1min_def remote_3min_def)
  have b: "queryCollections (snd (syncCollection env_user remote_3min
        (queryCollections world_synced, world_synced))) =
      table_modify (selected_by_id env_user (the (c_id local_synced)))
        (\<lambda>r. (merge_server_collection remote_3min local_synced)\<lparr>updated_at := Some (now env_user)\<rparr>)
        (queryCollections world_synced)"
    using syncCollection_skew_tolerance [OF matched, of remote_3min env_user world_synced] three
    by (simp add: remote_3min_def)
  have c: "table_modify (selected_by_id env_user (the (c_id local_synced)))
        (\<lambda>r. (merge_server_collection remote_3min local_synced)\<lparr>updated_at := Some (now env_user)\<rparr>)
        (queryCollections world_synced) =
      [\<lparr>c_id = Some (StrId ''c-1''), title = ''Theirs'', parentPath = Some [],
        serverId = Some ''s-1'',
        queries = [\<lparr>q_id = Some ''q-1'', q_serverId = Some ''sq-1'',
                    windowName = Some ''Window 1'', q_created_at = Some 0,
                    q_updated_at = Some 181000, content = Some ''{ new }''\<rparr>],
        created_at = Some 0, updated_at = Some 900000\<rparr>]"
    unfolding merged u
    by (simp add: table_modify_def selected_by_id_def world_synced_def local_synced_def
        remote_query_def)
  have d: "syncRemoteToLocal env_user [sc] world_synced =
      snd (syncCollection env_user sc (queryCollections world_synced, world_synced))" for sc
    by (simp add: syncRemoteToLocal_def u)
  show ?thesis
    by (simp only: d a b c snd_conv simp_thms)
qed

section \<open>The title of a remote collection without queries\<close>

lemma merge_server_collection_no_queries:
  "sc_queries sc = [] \<Longrightarrow> merge_server_collection sc m = m"
  by (simp add: merge_server_collection_def)

text \<open>
  Claim C3 says that the title is taken from the remote collection whenever the remote
  collection wins. The assignment \<^verbatim>\<open>matchedCollection.title = ...\<close> stands inside
  \<^verbatim>\<open>serverCollection.queries.forEach\<close>, so it does not run for a remote collection
  without queries: here the remote collection, named \<^verbatim>\<open>Theirs\<close>, is three minutes newer
  and wins, the record is written back with a new \<^verbatim>\<open>updated_at\<close>, and its title is
  still \<^verbatim>\<open>Mine\<close>.
\<close>

theorem syncRemoteToLocal_no_queries_keeps_title:
  "server_is_newer (sc_updatedAt remote_no_queries) (updated_at local_synced)
   \<and> collectionName remote_no_queries = ''Theirs''
   \<and> queryCollections (syncRemoteToLocal env_user [remote_no_queries] world_synced) =
       [local_synced\<lparr>updated_at := Some 900000\<rparr>]
   \<and> title (local_synced\<lparr>updated_at := Some 900000\<rparr>) = ''Mine''"
proof -
  have newer: "server_is_newer (sc_updatedAt remote_no_queries) (updated_at local_synced)"
    by (simp add: server_is_newer_def timestampDiffOffset_def remote_no_queries_def
        remote_3min_def local_synced_def)
  have name: "collectionName remote_no_queries = ''Theirs''"
    by (simp add: remote_no_queries_def remote_3min_def)
  have merged: "merge_server_collection remote_no_queries local_synced = local_synced"
    by (rule merge_server_collection_no_queries) (simp add: remote_no_queries_def)
  have found: "serverId local_synced = Some (sc_id remote_no_queries)"
    by (simp add: remote_no_queries_def remote_3min_def local_synced_def)
  have id: "c_id local_synced = Some (StrId ''c-1'')"
    by (simp add: local_synced_def)
  have u: "user env_user" "now env_user = 900000"
    by (simp_all add: env_user_def env0_def)
  have rows: "queryCollections (syncRemoteToLocal env_user [remote_no_queries] world_synced) =
      [local_synced\<lparr>updated_at := Some 900000\<rparr>]"
    by (simp add: syncRemoteToLocal_def syncCollection_def Let_def u world_synced_def found
        newer merged id updateLocalCollection_rows table_modify_def selected_by_id_def)
  have kept: "title (local_synced\<lparr>updated_at := Some 900000\<rparr>) = ''Mine''"
    by (simp add: local_synced_def)
  from newer name rows kept show ?thesis by simp
qed

section \<open>Moving a collection without a parent path\<close>

lemma num_str_digit: "n < 10 \<Longrightarrow> num_str (int n) = [digit_char n]"
  by (simp add: num_str_def nat_str.simps [of n])

text \<open>
  Claim C1 says that \<^verbatim>\<open>moveCollection\<close> rewrites the \<^verbatim>\<open>parentPath\<close> of the moved
  collection and of its descendants. For a root collection stored without a
  \<^verbatim>\<open>parentPath\<close> the function reads the old parent path as \<^verbatim>\<open>''\<close>
  (\<^verbatim>\<open>collection.parentPath ?? ''\<close>) but writes \<^verbatim>\<open>c.parentPath?.replace(...)\<close>, which is
  \<^verbatim>\<open>undefined\<close> again: moving collection \<^verbatim>\<open>1\<close> (one descendant, \<^verbatim>\<open>2\<close>) under \<^verbatim>\<open>3\<close>
  succeeds, the descendant's path becomes \<^verbatim>\<open>/3/1\<close>, and the moved collection itself is
  left where it was, a root without \<^verbatim>\<open>parentPath\<close>: one path is rewritten, not two.
\<close>

theorem moveCollection_legacy_root_not_moved:
  "moveCollection env0 (NumId 1) (NumId 3) legacy_world =
     (None, legacy_world\<lparr>queryCollections :=
        [legacy_root, legacy_child\<lparr>parentPath := Some ''/3/1''\<rparr>, target_root]\<rparr>)
   \<and> parentPath legacy_root = None
   \<and> subcollectionParentPath target_root (NumId 3) = ''/3''"
proof -
  have n1: "num_str 1 = ''1''" and n3: "num_str 3 = ''3''"
    using num_str_digit [of 1] num_str_digit [of 3] by (simp_all add: digit_char_def)
  have get1: "getCollectionByID (Number env0) (queryCollections legacy_world) (NumId 1)
      = Some legacy_root"
    by (simp add: getCollectionByID_def table_get_def legacy_world_def legacy_root_def)
  have get3: "getCollectionByID (Number env0) (queryCollections legacy_world) (NumId 3)
      = Some target_root"
    by (simp add: getCollectionByID_def table_get_def legacy_world_def legacy_root_def
        legacy_child_def target_root_def)
  have path3: "subcollectionParentPath target_root (NumId 3) = ''/3''"
    by (simp add: subcollectionParentPath_def target_root_def n3 COLLECTION_PATH_SEPARATOR_def)
  have rep: "js_replace ''/1'' [] ''/3'' = ''/3/1''"
    by (simp add: js_replace_def)
  have rows: "table_modify
      (\<lambda>r. selected_by_id env0 (NumId 1) r \<or> startsWith (parentPath r) ''/1'')
      (\<lambda>c. c\<lparr>parentPath := map_option (\<lambda>p. js_replace p [] ''/3'') (parentPath c)\<rparr>)
      [legacy_root, legacy_child, target_root]
      = [legacy_root, legacy_child\<lparr>parentPath := Some ''/3/1''\<rparr>, target_root]"
    by (simp add: table_modify_def selected_by_id_def startsWith_def legacy_root_def
        legacy_child_def target_root_def rep n1)
  have pp1: "parentPath legacy_root = None"
    by (simp add: legacy_root_def)
  have tbl: "queryCollections legacy_world = [legacy_root, legacy_child, target_root]"
    by (simp add: legacy_world_def)
  have "moveLocalCollection env0 (NumId 1) (NumId 3) legacy_world =
     (None, legacy_world\<lparr>queryCollections :=
        [legacy_root, legacy_child\<lparr>parentPath := Some ''/3/1''\<rparr>, target_root]\<rparr>)"
    unfolding moveLocalCollection_def get1 get3
    by (simp only: option.case Let_def path3 pp1 n1 id_str.simps COLLECTION_PATH_SEPARATOR_def
        tbl rows append_Nil)
  then show ?thesis
    by (simp add: moveCollection_def path3 pp1)
qed

text \<open>
  The same function selects the descendants with \<^verbatim>\<open>startsWith(parentPath)\<close>, a prefix
  without a closing separator: moving the collection \<^verbatim>\<open>1\<close>, which has no subcollection,
  also rewrites the path of \<^verbatim>\<open>13\<close>, the subcollection of \<^verbatim>\<open>12\<close>.
\<close>

lemma moveCollection_selects_longer_ids:
  "queryCollections (snd (moveCollection env0 (NumId 1) (NumId 3) numbered_world)) =
     [target_root\<lparr>c_id := Some (NumId 1), title := ''One'', parentPath := Some ''/3''\<rparr>,
      target_root\<lparr>c_id := Some (NumId 12), title := ''Twelve''\<rparr>,
      target_root\<lparr>c_id := Some (NumId 13), title := ''Thirteen'', parentPath := Some ''/3/12''\<rparr>,
      target_root]"
proof -
  have n1: "num_str 1 = ''1''" and n3: "num_str 3 = ''3''"
    using num_str_digit [of 1] num_str_digit [of 3] by (simp_all add: digit_char_def)
  have rep: "js_replace [] [] ''/3'' = ''/3''" "js_replace ''/12'' [] ''/3'' = ''/3/12''"
    by (simp_all add: js_replace_def)
  show ?thesis
    by (simp add: moveCollection_def moveLocalCollection_def getCollectionByID_def table_get_def
        numbered_world_def target_root_def subcollectionParentPath_def n1 n3
        COLLECTION_PATH_SEPARATOR_def table_modify_def selected_by_id_def startsWith_def rep)
qed

section \<open>A collection whose parent is not in the list\<close>

text \<open>
  Claim C4 says that a collection whose parent id resolves to no collection of the list
  is a root of the forest. In the code only an empty \<^verbatim>\<open>parentPath\<close> or an empty last
  segment makes a root; when the parent id is not a key of \<^verbatim>\<open>collectionMap\<close>,
  \<^verbatim>\<open>parentCollection?.collections?.push(collectionTree)\<close> does nothing and the tree
  object is neither pushed onto \<^verbatim>\<open>roots\<close> nor onto a parent: for the list of the one
  collection \<^verbatim>\<open>b\<close> with \<^verbatim>\<open>parentPath = '/a'\<close> the returned array is empty. So it is
  for a nested collection and its subcollection, the list
  \<^verbatim>\<open>getCollectionTreeByCollectionId\<close> builds to export a nested collection, which then
  takes the first element of an empty array.
\<close>

theorem getCollectionTrees_drops_orphan:
  "getParentCollectionId orphan = Some ''a''
   \<and> map_sum id snd (getCollectionTrees [orphan]) = Inr []
   \<and> collection_trees [orphan] = Inr (Some [])
   \<and> map_sum id snd (getCollectionTrees [nested_a, nested_b]) = Inr []"
proof -
  have nested: "map_sum id snd (getCollectionTrees [nested_a, nested_b]) = Inr []"
    by (simp add: getCollectionTrees_def getParentCollectionId_def nested_a_def nested_b_def
        COLLECTION_PATH_SEPARATOR_def Let_def)
  have parent: "getParentCollectionId orphan = Some ''a''"
    by (simp add: getParentCollectionId_def orphan_def COLLECTION_PATH_SEPARATOR_def)
  have key: "opt_id_str (c_id orphan) = ''b''" "truthy_id (c_id orphan)"
    "truthy_str (parentPath orphan)"
    by (simp_all add: orphan_def)
  have built: "getCollectionTrees [orphan] =
      Inr ([''b'' \<mapsto> (orphan\<lparr>c_id := Some (StrId ''b'')\<rparr>, [])], [])"
    by (simp add: getCollectionTrees_def key parent Let_def)
  show ?thesis
    by (simp add: parent built nested collection_trees_def)
qed

section \<open>Import assigns fresh ids\<close>

lemma remap_is_flatten:
  "remapCollectionIDsToCollectionList e t pp n =
     (getCollectionListFromTree (fst (reassigned_tree e t n)) pp, snd (reassigned_tree e t n))"
  "remap_subcollections e ts pp n =
     (concat (map (\<lambda>ct. getCollectionListFromTree ct pp) (fst (reassigned_trees e ts n))),
      snd (reassigned_trees e ts n))"
  by (induction e t pp n and e ts pp n
      rule: remapCollectionIDsToCollectionList_remap_subcollections.induct)
    (simp_all add: Let_def split_beta)

lemma reassigned_count:
  "snd (reassigned_tree e t n) = n + tree_size t"
  "snd (reassigned_trees e ts n) = n + sum_list (map tree_size ts)"
proof (induction e t n and e ts n rule: reassigned_tree_reassigned_trees.induct)
  case (3 e t ts n)
  from "3.IH"(2) [OF refl prod.collapse] "3.IH"(1) show ?case
    by (simp add: Let_def split_beta)
qed (simp_all add: Let_def split_beta)

lemma reassigned_shape:
  "without_ids (fst (reassigned_tree e t n)) = without_ids t"
  "map without_ids (fst (reassigned_trees e ts n)) = map without_ids ts"
proof (induction e t n and e ts n rule: reassigned_tree_reassigned_trees.induct)
  case (3 e t ts n)
  from "3.IH"(2) [OF refl prod.collapse] "3.IH"(1) show ?case
    by (simp add: Let_def split_beta)
qed (simp_all add: Let_def split_beta)

lemma flatten_ids:
  "map c_id (getCollectionListFromTree t pp) = map c_id (tree_nodes t)"
proof (induction t arbitrary: pp)
  case (CTree c cs)
  then show ?case
    by (simp add: map_concat cong: map_cong) 
qed

lemma reassigned_ids:
  "map c_id (tree_nodes (fst (reassigned_tree e t n))) =
     map (\<lambda>k. Some (StrId (uuid e k))) [n ..< n + tree_size t]"
  "map c_id (concat (map tree_nodes (fst (reassigned_trees e ts n)))) =
     map (\<lambda>k. Some (StrId (uuid e k))) [n ..< n + sum_list (map tree_size ts)]"
proof (induction e t n and e ts n rule: reassigned_tree_reassigned_trees.induct)
  case (1 e c cs n)
  have ids: "map c_id (tree_nodes (fst (reassigned_tree e (CTree c cs) n))) =
      Some (StrId (uuid e n))
        # map c_id (concat (map tree_nodes (fst (reassigned_trees e cs (Suc n)))))"
    by (simp add: Let_def split_beta)
  have "n < n + Suc m" for m by simp
  from upt_conv_Cons [OF this]
  have "[n..<n + Suc m] = n # [Suc n..<Suc n + m]" for m
    by (simp only: add_Suc_right add_Suc)
  then have rng: "[n..<n + tree_size (CTree c cs)] =
      n # [Suc n..<Suc n + sum_list (map tree_size cs)]"
    by (simp only: tree_size.simps)
  show ?case
    unfolding ids rng "1.IH" by (simp only: list.map)
next
  case (2 e n)
  then show ?case by simp
next
  case (3 e t ts n)
  let ?k = "sum_list (map tree_size ts)"
  have "[n..<n + tree_size t + ?k] = [n..<n + tree_size t] @ [n + tree_size t..<n + tree_size t + ?k]"
    by (rule upt_add_eq_append) simp
  then have rng: "[n..<n + sum_list (map tree_size (t # ts))] =
      [n..<n + tree_size t] @ [n + tree_size t..<n + tree_size t + ?k]"
    by (simp only: list.map sum_list.Cons add.assoc)
  have ids: "map c_id (concat (map tree_nodes (fst (reassigned_trees e (t # ts) n)))) =
      map c_id (tree_nodes (fst (reassigned_tree e t n)))
        @ map c_id (concat (map tree_nodes (fst (reassigned_trees e ts (n + tree_size t)))))"
    by (simp add: Let_def split_beta reassigned_count)
  from "3.IH"(2) [OF refl prod.collapse]
  have tl: "map c_id (concat (map tree_nodes (fst (reassigned_trees e ts (n + tree_size t))))) =
      map (\<lambda>k. Some (StrId (uuid e k))) [n + tree_size t..<n + tree_size t + ?k]"
    by (simp only: reassigned_count)
  show ?case
    unfolding ids rng "3.IH"(1) tl by (simp only: map_append)
qed

lemma flatten_contents:
  "map without_id_and_path (getCollectionListFromTree t pp) =
     map without_id_and_path (tree_nodes (without_ids t))"
proof (induction t arbitrary: pp)
  case (CTree c cs)
  then show ?case
    by (simp add: map_concat without_id_and_path_def cong: map_cong)
qed


lemma inj_new_id: "inj (uuid e) \<Longrightarrow> inj (\<lambda>k. Some (StrId (uuid e k)))"
  by (simp add: inj_def)

lemma flatten_paths:
  "x \<in> set (getCollectionListFromTree t pp) \<Longrightarrow>
   parentPath x = Some pp
   \<or> (\<exists>y \<in> set (getCollectionListFromTree t pp).
         parentPath x = Some (the (parentPath y) @ COLLECTION_PATH_SEPARATOR # opt_id_str (c_id y)))"
proof (induction t arbitrary: pp)
  case (CTree c cs)
  let ?pp = "pp @ COLLECTION_PATH_SEPARATOR # opt_id_str (c_id c)"
  let ?root = "c\<lparr>parentPath := Some pp\<rparr>"
  from CTree.prems consider "x = ?root"
    | ct where "ct \<in> set cs" "x \<in> set (getCollectionListFromTree ct ?pp)"
    by auto
  then show ?case
  proof cases
    case 1
    then show ?thesis by simp
  next
    case 2
    from CTree.IH [OF 2] show ?thesis
    proof
      assume "parentPath x = Some ?pp"
      then have "parentPath x =
          Some (the (parentPath ?root) @ COLLECTION_PATH_SEPARATOR # opt_id_str (c_id ?root))"
        by simp
      then show ?thesis by (intro disjI2 bexI [of _ ?root]) simp_all
    next
      assume "\<exists>y \<in> set (getCollectionListFromTree ct ?pp).
        parentPath x = Some (the (parentPath y) @ COLLECTION_PATH_SEPARATOR # opt_id_str (c_id y))"
      then obtain y where "y \<in> set (getCollectionListFromTree ct ?pp)"
        "parentPath x = Some (the (parentPath y) @ COLLECTION_PATH_SEPARATOR # opt_id_str (c_id y))"
        by auto
      with 2(1) show ?thesis by (intro disjI2 bexI [of _ y]) auto
    qed
  qed
qed

lemma flatten_path_Some:
  "y \<in> set (getCollectionListFromTree t pp) \<Longrightarrow> parentPath y \<noteq> None"
  by (induction t arbitrary: pp) auto

lemma remap_paths:
  assumes "x \<in> set (fst (remapCollectionIDsToCollectionList e t pp n))"
  shows "parentPath x = Some pp
       \<or> (\<exists>y \<in> set (fst (remapCollectionIDsToCollectionList e t pp n)).
             parentPath x = Some (own_path y))"
proof -
  let ?l = "fst (remapCollectionIDsToCollectionList e t pp n)"
  have flat: "?l = getCollectionListFromTree (fst (reassigned_tree e t n)) pp"
    by (simp add: remap_is_flatten)
  have own: "own_path y = the (parentPath y) @ COLLECTION_PATH_SEPARATOR # opt_id_str (c_id y)"
    if y: "y \<in> set ?l" for y
  proof -
    from y have "c_id y \<in> set (map c_id ?l)" by simp
    then have "c_id y \<noteq> None"
      unfolding flat flatten_ids reassigned_ids by auto
    moreover from y have "parentPath y \<noteq> None"
      unfolding flat by (rule flatten_path_Some)
    ultimately show ?thesis
      by (auto simp: own_path_def subcollectionParentPath_def)
  qed
  from flatten_paths [of x "fst (reassigned_tree e t n)" pp] assms own show ?thesis
    unfolding flat by auto
qed

text \<open>
  Claim C6. With an id generator that never repeats an id, the import flattening of a
  tree, called with the count \<open>n\<close> of ids generated so far, gives every node the next
  generated id (\<open>n\<close>, \<open>n + 1\<close>, ... in pre-order). The \<^verbatim>\<open>parentPath\<close> of every record of
  the list is the path passed in or the path of a record of the list, built from that
  record's reassigned id: the list is the export flattening of the tree with the
  reassigned ids, and that tree has the shape and contents of the document. A second
  import of the same document gives a list with the same contents in the same positions,
  over a tree of the same shape, and no id occurs twice in the two lists together.
\<close>

theorem remapCollectionIDsToCollectionList_fresh_ids:
  assumes "inj (uuid e)"
  shows "let first = remapCollectionIDsToCollectionList e t pp n;
             second = remapCollectionIDsToCollectionList e t pp (snd first);
             tree1 = fst (reassigned_tree e t n);
             tree2 = fst (reassigned_tree e t (snd first))
         in map c_id (fst first) = map (\<lambda>k. Some (StrId (uuid e k))) [n ..< n + tree_size t]
          \<and> map c_id (fst second) =
              map (\<lambda>k. Some (StrId (uuid e k))) [n + tree_size t ..< n + tree_size t + tree_size t]
          \<and> (\<forall>x \<in> set (fst first).
                parentPath x = Some pp
                \<or> (\<exists>y \<in> set (fst first). parentPath x = Some (own_path y)))
          \<and> fst first = getCollectionListFromTree tree1 pp
          \<and> fst second = getCollectionListFromTree tree2 pp
          \<and> without_ids tree1 = without_ids t
          \<and> without_ids tree2 = without_ids t
          \<and> map without_id_and_path (fst first) = map without_id_and_path (fst second)
          \<and> distinct (map c_id (fst first @ fst second))"
proof -
  let ?s = "tree_size t"
  let ?f = "\<lambda>k. Some (StrId (uuid e k))"
  have ids: "map c_id (getCollectionListFromTree (fst (reassigned_tree e t m)) pp) =
      map ?f [m ..< m + ?s]" for m
    by (simp only: flatten_ids reassigned_ids)
  have contents: "map without_id_and_path (getCollectionListFromTree (fst (reassigned_tree e t m)) pp)
      = map without_id_and_path (tree_nodes (without_ids t))" for m
    by (simp only: flatten_contents reassigned_shape)
  have paths: "\<forall>x \<in> set (getCollectionListFromTree (fst (reassigned_tree e t n)) pp).
      parentPath x = Some pp
      \<or> (\<exists>y \<in> set (getCollectionListFromTree (fst (reassigned_tree e t n)) pp).
            parentPath x = Some (own_path y))"
    using remap_paths [of _ e t pp n] by (simp only: remap_is_flatten fst_conv) blast
  have "[n ..< n + ?s] @ [n + ?s ..< n + ?s + ?s] = [n ..< n + ?s + ?s]"
    by (rule upt_add_eq_append [symmetric]) simp
  then have "map ?f [n ..< n + ?s] @ map ?f [n + ?s ..< n + ?s + ?s] = map ?f [n ..< n + ?s + ?s]"
    by (simp only: map_append [symmetric])
  moreover have "distinct (map ?f [n ..< n + ?s + ?s])"
    using inj_new_id [OF assms] by (simp add: distinct_map inj_on_def inj_def)
  ultimately have "distinct (map ?f [n ..< n + ?s] @ map ?f [n + ?s ..< n + ?s + ?s])"
    by simp
  with paths show ?thesis
    by (simp only: Let_def remap_is_flatten fst_conv snd_conv reassigned_count reassigned_shape
        ids contents map_append simp_thms)
qed

lemma inj_uuid_env0: "inj (uuid env0)"
  by (simp add: env0_def inj_def)

theorem remapCollectionIDsToCollectionList_fresh_ids_witness:
  "inj (uuid env0)
   \<and> fst (remapCollectionIDsToCollectionList env0 document [] 0) =
       [stored42\<lparr>c_id := Some (StrId ''u''), parentPath := Some []\<rparr>,
        child7\<lparr>c_id := Some (StrId ''uu''), parentPath := Some ''/u''\<rparr>]
   \<and> fst (remapCollectionIDsToCollectionList env0 document [] 2) =
       [stored42\<lparr>c_id := Some (StrId ''uuu''), parentPath := Some []\<rparr>,
        child7\<lparr>c_id := Some (StrId ''uuuu''), parentPath := Some ''/uuu''\<rparr>]
   \<and> distinct (map c_id (fst (remapCollectionIDsToCollectionList env0 document [] 0)
                          @ fst (remapCollectionIDsToCollectionList env0 document [] 2)))"
proof -
  have u: "uuid env0 0 = ''u''" "uuid env0 (Suc 0) = ''uu''" "uuid env0 2 = ''uuu''"
    "uuid env0 3 = ''uuuu''"
    by (simp_all add: env0_def eval_nat_numeral)
  have first: "remapCollectionIDsToCollectionList env0 document [] 0 =
      ([stored42\<lparr>c_id := Some (StrId ''u''), parentPath := Some []\<rparr>,
        child7\<lparr>c_id := Some (StrId ''uu''), parentPath := Some ''/u''\<rparr>], 2)"
    by (simp add: document_def u COLLECTION_PATH_SEPARATOR_def Let_def)
  have second: "remapCollectionIDsToCollectionList env0 document [] 2 =
      ([stored42\<lparr>c_id := Some (StrId ''uuu''), parentPath := Some []\<rparr>,
        child7\<lparr>c_id := Some (StrId ''uuuu''), parentPath := Some ''/uuu''\<rparr>], 4)"
    by (simp add: document_def u COLLECTION_PATH_SEPARATOR_def Let_def)
  have "distinct (map c_id (fst (remapCollectionIDsToCollectionList env0 document [] 0)
      @ fst (remapCollectionIDsToCollectionList env0 document []
               (snd (remapCollectionIDsToCollectionList env0 document [] 0)))))"
    using remapCollectionIDsToCollectionList_fresh_ids [OF inj_uuid_env0, of document "[]" 0]
    unfolding Let_def by blast
  moreover have "snd (remapCollectionIDsToCollectionList env0 document [] 0) = 2"
    by (simp only: first snd_conv)
  ultimately have "distinct (map c_id (fst (remapCollectionIDsToCollectionList env0 document [] 0)
                          @ fst (remapCollectionIDsToCollectionList env0 document [] 2)))"
    by simp
  with inj_uuid_env0 first second show ?thesis
    by (simp only: fst_conv simp_thms)
qed

section \<open>Building the trees of a flat list and flattening them\<close>

text \<open>
  Claim C5 as stated, for every flat list whose collections have ids, does not hold. A
  numeric id comes back as its string (\<^verbatim>\<open>id: `${collectionId}`\<close>), so the list of the
  one collection stored under \<^verbatim>\<open>42\<close> comes back with the id \<^verbatim>\<open>"42"\<close>; and the list of
  a nested collection and its subcollection comes back empty.
\<close>

theorem rebuilt_list_not_identity:
  "truthy_id (c_id stored42)
   \<and> rebuilt_list [stored42] = Some [stored42\<lparr>c_id := Some (StrId ''42'')\<rparr>]
   \<and> set [stored42\<lparr>c_id := Some (StrId ''42'')\<rparr>] \<noteq> set [stored42]
   \<and> truthy_id (c_id nested_a) \<and> truthy_id (c_id nested_b)
   \<and> rebuilt_list [nested_a, nested_b] = Some []"
proof -
  have key: "opt_id_str (c_id stored42) = ''42''" "truthy_id (c_id stored42)"
    "\<not> truthy_str (parentPath stored42)"
    by (simp_all add: stored42_def num_str_42)
  have same: "stored42\<lparr>c_id := Some (StrId ''42''), parentPath := Some []\<rparr>
      = stored42\<lparr>c_id := Some (StrId ''42'')\<rparr>"
    by (simp add: stored42_def)
  have "getCollectionTrees [stored42] =
      Inr ([''42'' \<mapsto> (stored42\<lparr>c_id := Some (StrId ''42'')\<rparr>, [])], [''42''])"
    by (simp add: getCollectionTrees_def key Let_def)
  then have one: "rebuilt_list [stored42] = Some [stored42\<lparr>c_id := Some (StrId ''42'')\<rparr>]"
    by (simp add: rebuilt_list_def collection_trees_def flatten_trees_def same)
  have differ: "set [stored42\<lparr>c_id := Some (StrId ''42'')\<rparr>] \<noteq> set [stored42]"
    by (simp add: stored42_def)
  have roots: "map_sum id snd (getCollectionTrees [nested_a, nested_b]) = Inr []"
    by (simp add: getCollectionTrees_def getParentCollectionId_def nested_a_def nested_b_def
        COLLECTION_PATH_SEPARATOR_def Let_def)
  then have two: "rebuilt_list [nested_a, nested_b] = Some []"
    by (auto simp: rebuilt_list_def collection_trees_def flatten_trees_def map_sum_def
        split: sum.splits prod.splits)
  show ?thesis
    using one differ two key(2) by (simp add: nested_a_def nested_b_def)
qed

subsection \<open>Splitting a path\<close>

lemma js_split_not_Nil: "js_split sep s \<noteq> []"
  by (induction s) (auto split: list.splits)

lemma js_split_no_sep: "sep \<notin> set k \<Longrightarrow> js_split sep k = [k]"
  by (induction k) auto

lemma js_split_append: "js_split sep (p @ sep # k) = js_split sep p @ js_split sep k"
proof (induction p)
  case Nil
  show ?case by simp
next
  case (Cons c p)
  obtain seg segs where "js_split sep p = seg # segs"
    using js_split_not_Nil [of sep p] by (cases "js_split sep p") auto
  with Cons show ?case by simp
qed

lemma getParentCollectionId_own_path:
  assumes "parentPath c = Some (p @ COLLECTION_PATH_SEPARATOR # k)"
    and "COLLECTION_PATH_SEPARATOR \<notin> set k" and "k \<noteq> []"
  shows "getParentCollectionId c = Some k"
  using assms by (simp add: getParentCollectionId_def js_split_append js_split_no_sep)

subsection \<open>The two passes\<close>

lemma make_tree_objects_result:
  assumes "\<forall>c \<in> set cs. \<exists>s. c_id c = Some (StrId s) \<and> s \<noteq> []"
    and "distinct (map collection_key cs)"
  shows "\<exists>h'. make_tree_objects cs h = Inr h'
           \<and> (\<forall>c \<in> set cs. h' (collection_key c) = Some (c, []))
           \<and> (\<forall>k. k \<notin> collection_key ` set cs \<longrightarrow> h' k = h k)"
  using assms
proof (induction cs arbitrary: h)
  case Nil
  show ?case by simp
next
  case (Cons c cs)
  then obtain s where s: "c_id c = Some (StrId s)" "s \<noteq> []" by auto
  then have same: "c\<lparr>c_id := Some (StrId s)\<rparr> = c" by simp
  let ?h = "h(collection_key c \<mapsto> (c, []))"
  have step: "make_tree_objects (c # cs) h = make_tree_objects cs ?h"
    by (simp add: collection_key_def s same)
  from Cons.prems have "\<forall>c \<in> set cs. \<exists>s. c_id c = Some (StrId s) \<and> s \<noteq> []"
    and "distinct (map collection_key cs)" by simp_all
  from Cons.IH [OF this, of ?h] obtain h' where h':
    "make_tree_objects cs ?h = Inr h'"
    "\<forall>c \<in> set cs. h' (collection_key c) = Some (c, [])"
    "\<forall>k. k \<notin> collection_key ` set cs \<longrightarrow> h' k = ?h k"
    by blast
  have fresh: "collection_key c \<notin> collection_key ` set cs"
    using Cons.prems(2) by simp
  have "h' (collection_key c) = Some (c, [])"
    using h'(3) fresh by simp
  moreover have "\<forall>k. k \<notin> collection_key ` set (c # cs) \<longrightarrow> h' k = h k"
    using h'(3) by simp
  ultimately show ?case
    using step h'(1,2) by simp
qed

lemma attach_tree_objects_result:
  assumes "\<forall>c \<in> set cs. h (collection_key c) \<noteq> None"
  shows "attach_tree_objects cs (h, roots) =
     (\<lambda>k. map_option (\<lambda>obj. (fst obj, snd obj @ map collection_key (filter (attached_to k) cs))) (h k),
      roots @ map collection_key (filter is_root cs))"
  using assms
proof (induction cs arbitrary: h roots)
  case Nil
  show ?case by (simp add: fun_eq_iff option.map_ident)
next
  case (Cons c cs)
  from Cons.prems obtain obj where obj: "h (collection_key c) = Some obj" by auto
  have rest: "\<forall>c \<in> set cs. h (collection_key c) \<noteq> None"
    using Cons.prems by simp
  show ?case
  proof (cases "is_root c")
    case True
    then have no: "\<not> attached_to k c" for k
      by (auto simp: is_root_def attached_to_def)
    from True have "attach_tree_objects (c # cs) (h, roots) =
        attach_tree_objects cs (h, roots @ [collection_key c])"
      using obj by (auto simp: is_root_def collection_key_def Let_def split: option.splits)
    then show ?thesis
      using Cons.IH [OF rest] True no by simp
  next
    case False
    then obtain pid where pid: "truthy_str (parentPath c)" "getParentCollectionId c = Some pid"
      by (auto simp: is_root_def)
    have att: "attached_to k c \<longleftrightarrow> k = pid" for k
      using pid by (auto simp: attached_to_def)
    show ?thesis
    proof (cases "h pid")
      case None
      then have "attach_tree_objects (c # cs) (h, roots) = attach_tree_objects cs (h, roots)"
        using obj pid by (simp add: collection_key_def Let_def)
      then show ?thesis
        using Cons.IH [OF rest] False None by (auto simp: fun_eq_iff att)
    next
      case (Some pc)
      let ?h = "h(pid \<mapsto> (fst pc, snd pc @ [collection_key c]))"
      have rest': "\<forall>c \<in> set cs. ?h (collection_key c) \<noteq> None"
        using rest by simp
      have "attach_tree_objects (c # cs) (h, roots) = attach_tree_objects cs (?h, roots)"
        using obj pid Some by (simp add: collection_key_def Let_def)
      then show ?thesis
        using Cons.IH [OF rest'] False Some by (auto simp: fun_eq_iff att)
    qed
  qed
qed


subsection \<open>Well-formed lists\<close>

lemma wf_id:
  assumes "well_formed_list L" and "c \<in> set L"
  obtains s where "c_id c = Some (StrId s)" and "s \<noteq> []"
    and "COLLECTION_PATH_SEPARATOR \<notin> set s" and "collection_key c = s"
proof -
  from assms have "case c_id c of
      Some (StrId s) \<Rightarrow> s \<noteq> [] \<and> COLLECTION_PATH_SEPARATOR \<notin> set s | _ \<Rightarrow> False"
    by (simp add: well_formed_list_def list_all_iff)
  then show thesis
    using that by (auto simp: collection_key_def split: option.splits cid.splits)
qed

lemma wf_key_inj:
  assumes wf: "well_formed_list L" and c: "c \<in> set L" and d: "d \<in> set L"
    and eq: "collection_key c = collection_key d"
  shows "c = d"
proof -
  from wf_id [OF wf c] obtain s where s: "c_id c = Some (StrId s)" "collection_key c = s" .
  from wf_id [OF wf d] obtain s' where s': "c_id d = Some (StrId s')" "collection_key d = s'" .
  from wf have "inj_on c_id (set L)"
    by (simp add: well_formed_list_def distinct_map)
  moreover have "c_id c = c_id d"
    using s s' eq by simp
  ultimately show ?thesis
    using c d by (auto dest: inj_onD)
qed

lemma wf_distinct_keys:
  assumes wf: "well_formed_list L"
  shows "distinct (map collection_key L)"
proof -
  from wf have "distinct L"
    by (simp add: well_formed_list_def distinct_map)
  moreover have "inj_on collection_key (set L)"
    using wf_key_inj [OF wf] by (auto intro: inj_onI)
  ultimately show ?thesis
    by (simp add: distinct_map)
qed

lemma wf_parent:
  assumes "well_formed_list L" and "c \<in> set L"
  shows "parentPath c = Some [] \<or> (\<exists>p \<in> set L. parentPath c = Some (own_path p))"
  using assms by (auto simp: well_formed_list_def list_all_iff list_ex_iff)

lemma wf_path_Some:
  assumes "well_formed_list L" and "c \<in> set L"
  obtains P where "parentPath c = Some P"
  using wf_parent [OF assms] by auto

lemma own_path_eq:
  assumes wf: "well_formed_list L" and c: "c \<in> set L"
  shows "own_path c = the (parentPath c) @ COLLECTION_PATH_SEPARATOR # collection_key c"
proof -
  from wf_id [OF wf c] obtain s where "c_id c = Some (StrId s)" "collection_key c = s" .
  moreover from wf_path_Some [OF wf c] obtain P where "parentPath c = Some P" .
  ultimately show ?thesis
    by (simp add: own_path_def subcollectionParentPath_def)
qed

lemma child_parent_id:
  assumes wf: "well_formed_list L" and p: "p \<in> set L"
    and d: "parentPath d = Some (own_path p)"
  shows "truthy_str (parentPath d)" and "getParentCollectionId d = Some (collection_key p)"
proof -
  from wf_id [OF wf p] obtain s where s: "s \<noteq> []" "COLLECTION_PATH_SEPARATOR \<notin> set s"
    "collection_key p = s" .
  from d have d': "parentPath d =
      Some (the (parentPath p) @ COLLECTION_PATH_SEPARATOR # collection_key p)"
    by (simp add: own_path_eq [OF wf p])
  then show "truthy_str (parentPath d)" by simp
  from getParentCollectionId_own_path [OF d'] s
  show "getParentCollectionId d = Some (collection_key p)" by simp
qed

lemma wf_is_root:
  assumes wf: "well_formed_list L" and c: "c \<in> set L"
  shows "is_root c \<longleftrightarrow> parentPath c = Some []"
proof
  assume "is_root c"
  with wf_parent [OF wf c] child_parent_id [OF wf] show "parentPath c = Some []"
    by (auto simp: is_root_def)
next
  assume "parentPath c = Some []"
  then show "is_root c" by (simp add: is_root_def)
qed

lemma wf_attached:
  assumes wf: "well_formed_list L" and c: "c \<in> set L" and d: "d \<in> set L"
  shows "attached_to (collection_key c) d \<longleftrightarrow> parentPath d = Some (own_path c)"
proof
  assume att: "attached_to (collection_key c) d"
  then have "parentPath d \<noteq> Some []"
    by (auto simp: attached_to_def)
  with wf_parent [OF wf d] obtain p where p: "p \<in> set L" "parentPath d = Some (own_path p)"
    by auto
  from child_parent_id(2) [OF wf p] att have "collection_key p = collection_key c"
    by (simp add: attached_to_def)
  from wf_key_inj [OF wf p(1) c this] p(2) show "parentPath d = Some (own_path c)"
    by simp
next
  assume "parentPath d = Some (own_path c)"
  from child_parent_id [OF wf c this] show "attached_to (collection_key c) d"
    by (simp add: attached_to_def)
qed

lemma getCollectionTrees_well_formed:
  assumes wf: "well_formed_list L"
  shows "\<exists>objs. getCollectionTrees L = Inr (objs, map collection_key (roots_of L))
           \<and> (\<forall>c \<in> set L. objs (collection_key c) =
                 Some (c, map collection_key (children_of L c)))"
proof -
  have ids: "\<forall>c \<in> set L. \<exists>s. c_id c = Some (StrId s) \<and> s \<noteq> []"
    using wf_id [OF wf] by metis
  from make_tree_objects_result [OF ids wf_distinct_keys [OF wf], of Map.empty]
  obtain h where h: "make_tree_objects L Map.empty = Inr h"
    "\<forall>c \<in> set L. h (collection_key c) = Some (c, [])"
    by blast
  then have present: "\<forall>c \<in> set L. h (collection_key c) \<noteq> None"
    by simp
  let ?objs = "\<lambda>k. map_option
      (\<lambda>obj. (fst obj, snd obj @ map collection_key (filter (attached_to k) L))) (h k)"
  have roots: "filter is_root L = roots_of L"
    unfolding roots_of_def by (rule filter_cong) (simp_all add: wf_is_root [OF wf])
  have kids: "filter (attached_to (collection_key c)) L = children_of L c" if "c \<in> set L" for c
    unfolding children_of_def by (rule filter_cong) (simp_all add: wf_attached [OF wf that])
  have "getCollectionTrees L = Inr (?objs, map collection_key (roots_of L))"
    by (simp add: getCollectionTrees_def h(1) attach_tree_objects_result [OF present] roots)
  moreover have "\<forall>c \<in> set L. ?objs (collection_key c) =
      Some (c, map collection_key (children_of L c))"
    using h(2) kids by simp
  ultimately show ?thesis by blast
qed

subsection \<open>Reading the trees\<close>

lemma those_map:
  "those (map f xs) = (if \<forall>x \<in> set xs. f x \<noteq> None then Some (map (\<lambda>x. the (f x)) xs) else None)"
  by (induction xs) (auto split: option.splits)

lemma tree_at_Suc:
  assumes "objs (collection_key c) = Some (c, map collection_key kids)"
  shows "tree_at (Suc n) objs (collection_key c) =
     (if \<forall>d \<in> set kids. tree_at n objs (collection_key d) \<noteq> None
      then Some (CTree c (map (\<lambda>d. the (tree_at n objs (collection_key d))) kids))
      else None)"
  using assms those_map [of "\<lambda>d. tree_at n objs (collection_key d)" kids]
  by (simp add: comp_def)


lemma children_of_iff:
  "d \<in> set (children_of L c) \<longleftrightarrow> d \<in> set L \<and> parentPath d = Some (own_path c)"
  by (auto simp: children_of_def)

lemma child_path_longer:
  assumes wf: "well_formed_list L" and c: "c \<in> set L"
    and d: "parentPath d = Some (own_path c)"
  shows "length (the (parentPath c)) < length (the (parentPath d))"
  using d by (simp add: own_path_eq [OF wf c])

lemma flatten_tree_at:
  assumes wf: "well_formed_list L"
    and objs: "\<forall>c \<in> set L. objs (collection_key c) = Some (c, map collection_key (children_of L c))"
    and c: "c \<in> set L"
    and t: "tree_at (Suc n) objs (collection_key c) = Some t"
  shows "(\<forall>d \<in> set (children_of L c). tree_at n objs (collection_key d) \<noteq> None)
       \<and> getCollectionListFromTree t (the (parentPath c)) =
           c # concat (map (\<lambda>d. getCollectionListFromTree (the (tree_at n objs (collection_key d)))
                                  (the (parentPath d)))
                        (children_of L c))"
proof -
  from objs c have obj: "objs (collection_key c) = Some (c, map collection_key (children_of L c))"
    by simp
  from t tree_at_Suc [of objs c "children_of L c" n, OF obj]
  have all: "\<forall>d \<in> set (children_of L c). tree_at n objs (collection_key d) \<noteq> None"
    and t': "t = CTree c (map (\<lambda>d. the (tree_at n objs (collection_key d))) (children_of L c))"
    by (auto simp del: tree_at.simps split: if_splits)
  from wf_path_Some [OF wf c] obtain P where P: "parentPath c = Some P" .
  then have same: "c\<lparr>parentPath := Some P\<rparr> = c" by simp
  have own: "P @ COLLECTION_PATH_SEPARATOR # opt_id_str (c_id c) = own_path c"
    using own_path_eq [OF wf c] P by (simp add: collection_key_def)
  have paths: "the (parentPath d) = own_path c" if "d \<in> set (children_of L c)" for d
    using that by (simp add: children_of_iff)
  have "getCollectionListFromTree t P =
      c # concat (map (\<lambda>d. getCollectionListFromTree (the (tree_at n objs (collection_key d)))
                             (own_path c))
                   (children_of L c))"
    by (simp add: t' same own comp_def)
  also have "map (\<lambda>d. getCollectionListFromTree (the (tree_at n objs (collection_key d)))
                        (own_path c)) (children_of L c) =
      map (\<lambda>d. getCollectionListFromTree (the (tree_at n objs (collection_key d)))
                 (the (parentPath d))) (children_of L c)"
    by (rule map_cong) (simp_all add: paths)
  finally show ?thesis
    using all P by simp
qed

lemma tree_at_enough_fuel:
  assumes wf: "well_formed_list L"
    and objs: "\<forall>c \<in> set L. objs (collection_key c) = Some (c, map collection_key (children_of L c))"
  shows "c \<in> set L \<Longrightarrow>
     card {e \<in> set L. length (the (parentPath c)) < length (the (parentPath e))} < n \<Longrightarrow>
     tree_at n objs (collection_key c) \<noteq> None"
proof (induction n arbitrary: c)
  case 0
  then show ?case by simp
next
  case (Suc n)
  let ?deeper = "\<lambda>c. {e \<in> set L. length (the (parentPath c)) < length (the (parentPath e))}"
  have "tree_at n objs (collection_key d) \<noteq> None" if d: "d \<in> set (children_of L c)" for d
  proof -
    from d have dL: "d \<in> set L" and dp: "parentPath d = Some (own_path c)"
      by (simp_all add: children_of_iff)
    from child_path_longer [OF wf Suc.prems(1) dp]
    have longer: "length (the (parentPath c)) < length (the (parentPath d))" .
    then have "?deeper d \<subseteq> ?deeper c" by auto
    moreover have "d \<in> ?deeper c" "d \<notin> ?deeper d"
      using dL longer by simp_all
    ultimately have "?deeper d \<subset> ?deeper c" by blast
    then have "card (?deeper d) < card (?deeper c)"
      by (rule psubset_card_mono [rotated]) simp
    with Suc.prems(2) have "card (?deeper d) < n" by simp
    from Suc.IH [OF dL this] show ?thesis .
  qed
  then have kids: "\<forall>d \<in> set (children_of L c). tree_at n objs (collection_key d) \<noteq> None"
    by blast
  from objs Suc.prems(1)
  have obj: "objs (collection_key c) = Some (c, map collection_key (children_of L c))"
    by simp
  show ?case
    unfolding tree_at_Suc [of objs c "children_of L c" n, OF obj] using kids by simp
qed

lemma flatten_head:
  assumes wf: "well_formed_list L"
    and objs: "\<forall>c \<in> set L. objs (collection_key c) = Some (c, map collection_key (children_of L c))"
    and c: "c \<in> set L"
    and t: "tree_at n objs (collection_key c) = Some t"
  shows "c \<in> set (getCollectionListFromTree t (the (parentPath c)))"
proof (cases n)
  case 0
  with t show ?thesis by simp
next
  case (Suc m)
  with flatten_tree_at [OF wf objs c, of m t] t show ?thesis by simp
qed

lemma flatten_subset:
  assumes wf: "well_formed_list L"
    and objs: "\<forall>c \<in> set L. objs (collection_key c) = Some (c, map collection_key (children_of L c))"
  shows "c \<in> set L \<Longrightarrow> tree_at n objs (collection_key c) = Some t \<Longrightarrow>
     set (getCollectionListFromTree t (the (parentPath c))) \<subseteq> set L"
proof (induction n arbitrary: c t)
  case 0
  then show ?case by simp
next
  case (Suc n)
  from flatten_tree_at [OF wf objs Suc.prems]
  have all: "\<forall>d \<in> set (children_of L c). tree_at n objs (collection_key d) \<noteq> None"
    and flat: "getCollectionListFromTree t (the (parentPath c)) =
      c # concat (map (\<lambda>d. getCollectionListFromTree (the (tree_at n objs (collection_key d)))
                             (the (parentPath d))) (children_of L c))"
    by simp_all
  have "set (getCollectionListFromTree (the (tree_at n objs (collection_key d)))
          (the (parentPath d))) \<subseteq> set L" if d: "d \<in> set (children_of L c)" for d
  proof -
    from all d obtain td where "tree_at n objs (collection_key d) = Some td" by auto
    moreover from d have "d \<in> set L" by (simp add: children_of_iff)
    ultimately show ?thesis using Suc.IH by simp
  qed
  with Suc.prems(1) show ?case
    unfolding flat by auto
qed

lemma flatten_closed:
  assumes wf: "well_formed_list L"
    and objs: "\<forall>c \<in> set L. objs (collection_key c) = Some (c, map collection_key (children_of L c))"
    and d: "d \<in> set L" "parentPath d = Some (own_path x)"
  shows "c \<in> set L \<Longrightarrow> tree_at n objs (collection_key c) = Some t \<Longrightarrow>
     x \<in> set (getCollectionListFromTree t (the (parentPath c))) \<Longrightarrow>
     d \<in> set (getCollectionListFromTree t (the (parentPath c)))"
proof (induction n arbitrary: c t)
  case 0
  then show ?case by simp
next
  case (Suc n)
  from flatten_tree_at [OF wf objs Suc.prems(1,2)]
  have all: "\<forall>e \<in> set (children_of L c). tree_at n objs (collection_key e) \<noteq> None"
    and flat: "getCollectionListFromTree t (the (parentPath c)) =
      c # concat (map (\<lambda>e. getCollectionListFromTree (the (tree_at n objs (collection_key e)))
                             (the (parentPath e))) (children_of L c))"
    by simp_all
  from Suc.prems(3) consider "x = c"
    | e where "e \<in> set (children_of L c)"
        "x \<in> set (getCollectionListFromTree (the (tree_at n objs (collection_key e)))
                    (the (parentPath e)))"
    unfolding flat by auto
  then show ?case
  proof cases
    case 1
    with d have kid: "d \<in> set (children_of L c)" by (simp add: children_of_iff)
    with all obtain td where td: "tree_at n objs (collection_key d) = Some td" by auto
    from flatten_head [OF wf objs d(1) td] td kid show ?thesis
      unfolding flat by force
  next
    case 2
    from all 2(1) obtain te where te: "tree_at n objs (collection_key e) = Some te" by auto
    from 2(1) have "e \<in> set L" by (simp add: children_of_iff)
    from Suc.IH [OF this te] 2(2) te
    have "d \<in> set (getCollectionListFromTree (the (tree_at n objs (collection_key e)))
                     (the (parentPath e)))" by simp
    with 2(1) show ?thesis
      unfolding flat by force
  qed
qed

lemma all_reached:
  assumes wf: "well_formed_list L"
    and objs: "\<forall>c \<in> set L. objs (collection_key c) = Some (c, map collection_key (children_of L c))"
    and roots: "\<forall>r \<in> set (roots_of L). tree_at n objs (collection_key r) \<noteq> None"
  shows "c \<in> set L \<Longrightarrow>
     \<exists>r \<in> set (roots_of L).
       c \<in> set (getCollectionListFromTree (the (tree_at n objs (collection_key r))) [])"
proof (induction "length (the (parentPath c))" arbitrary: c rule: less_induct)
  case less
  from wf_parent [OF wf less.prems] show ?case
  proof
    assume root: "parentPath c = Some []"
    with less.prems have r: "c \<in> set (roots_of L)" by (simp add: roots_of_def)
    with roots obtain t where t: "tree_at n objs (collection_key c) = Some t" by auto
    from flatten_head [OF wf objs less.prems t] root t
    have "c \<in> set (getCollectionListFromTree (the (tree_at n objs (collection_key c))) [])"
      by simp
    with r show ?thesis by blast
  next
    assume "\<exists>p \<in> set L. parentPath c = Some (own_path p)"
    then obtain p where p: "p \<in> set L" "parentPath c = Some (own_path p)" by auto
    from child_path_longer [OF wf p] less.hyps [OF _ p(1)]
    obtain r where r: "r \<in> set (roots_of L)"
      "p \<in> set (getCollectionListFromTree (the (tree_at n objs (collection_key r))) [])"
      by auto
    from r(1) have rL: "r \<in> set L" and rp: "parentPath r = Some []"
      by (simp_all add: roots_of_def)
    from roots r(1) obtain t where t: "tree_at n objs (collection_key r) = Some t" by auto
    from flatten_closed [OF wf objs less.prems p(2) rL t] r(2) t rp
    have "c \<in> set (getCollectionListFromTree (the (tree_at n objs (collection_key r))) [])"
      by simp
    with r(1) show ?thesis by auto
  qed
qed

lemma distinct_concat_map:
  assumes "distinct xs"
    and "\<And>x. x \<in> set xs \<Longrightarrow> distinct (F x)"
    and "\<And>x y. x \<in> set xs \<Longrightarrow> y \<in> set xs \<Longrightarrow> x \<noteq> y \<Longrightarrow> set (F x) \<inter> set (F y) = {}"
  shows "distinct (concat (map F xs))"
  using assms
proof (induction xs)
  case Nil
  show ?case by simp
next
  case (Cons x xs)
  have "set (F x) \<inter> set (F y) = {}" if "y \<in> set xs" for y
    using Cons.prems(1) Cons.prems(3) [of x y] that by auto
  with Cons show ?case by auto
qed

lemma segment_unique:
  assumes "a @ s = b @ s'"
    and "sep \<notin> set a" and "sep \<notin> set b"
    and "s = [] \<or> hd s = sep" and "s' = [] \<or> hd s' = sep"
  shows "a = b"
proof -
  have "takeWhile (\<lambda>c. c \<noteq> sep) (a @ s) = a" if "sep \<notin> set a" "s = [] \<or> hd s = sep" for a s
    using that by (induction a) (auto simp: takeWhile_eq_Nil_iff neq_Nil_conv)
  from this [OF assms(2,4)] this [OF assms(3,5)] assms(1) show ?thesis by simp
qed

lemma flatten_below:
  assumes wf: "well_formed_list L"
    and objs: "\<forall>c \<in> set L. objs (collection_key c) = Some (c, map collection_key (children_of L c))"
  shows "c \<in> set L \<Longrightarrow> tree_at n objs (collection_key c) = Some t \<Longrightarrow>
     x \<in> set (getCollectionListFromTree t (the (parentPath c))) \<Longrightarrow>
     \<exists>s. own_path x = own_path c @ s \<and> (s = [] \<or> hd s = COLLECTION_PATH_SEPARATOR)"
proof (induction n arbitrary: c t)
  case 0
  then show ?case by simp
next
  case (Suc n)
  from flatten_tree_at [OF wf objs Suc.prems(1,2)]
  have all: "\<forall>e \<in> set (children_of L c). tree_at n objs (collection_key e) \<noteq> None"
    and flat: "getCollectionListFromTree t (the (parentPath c)) =
      c # concat (map (\<lambda>e. getCollectionListFromTree (the (tree_at n objs (collection_key e)))
                             (the (parentPath e))) (children_of L c))"
    by simp_all
  from Suc.prems(3) consider "x = c"
    | e where "e \<in> set (children_of L c)"
        "x \<in> set (getCollectionListFromTree (the (tree_at n objs (collection_key e)))
                    (the (parentPath e)))"
    unfolding flat by auto
  then show ?case
  proof cases
    case 1
    then show ?thesis by simp
  next
    case 2
    from all 2(1) obtain te where te: "tree_at n objs (collection_key e) = Some te" by auto
    from 2(1) have eL: "e \<in> set L" and ep: "parentPath e = Some (own_path c)"
      by (simp_all add: children_of_iff)
    from Suc.IH [OF eL te] 2(2) te obtain s where
      s: "own_path x = own_path e @ s" by auto
    from own_path_eq [OF wf eL] ep
    have "own_path e = own_path c @ COLLECTION_PATH_SEPARATOR # collection_key e" by simp
    with s have "own_path x = own_path c @ (COLLECTION_PATH_SEPARATOR # collection_key e @ s)"
      by simp
    then show ?thesis by (intro exI [of _ "COLLECTION_PATH_SEPARATOR # collection_key e @ s"]) simp
  qed
qed

lemma siblings_disjoint:
  assumes wf: "well_formed_list L"
    and objs: "\<forall>c \<in> set L. objs (collection_key c) = Some (c, map collection_key (children_of L c))"
    and d: "d \<in> set L" "tree_at n objs (collection_key d) = Some td"
    and e: "e \<in> set L" "tree_at n objs (collection_key e) = Some te"
    and same: "parentPath d = parentPath e"
    and ne: "d \<noteq> e"
  shows "set (getCollectionListFromTree td (the (parentPath d)))
       \<inter> set (getCollectionListFromTree te (the (parentPath e))) = {}"
proof (rule ccontr)
  assume "\<not> ?thesis"
  then obtain x where x: "x \<in> set (getCollectionListFromTree td (the (parentPath d)))"
    "x \<in> set (getCollectionListFromTree te (the (parentPath e)))" by auto
  from flatten_below [OF wf objs d x(1)] obtain s where
    s: "own_path x = own_path d @ s" "s = [] \<or> hd s = COLLECTION_PATH_SEPARATOR" by auto
  from flatten_below [OF wf objs e x(2)] obtain s' where
    s': "own_path x = own_path e @ s'" "s' = [] \<or> hd s' = COLLECTION_PATH_SEPARATOR" by auto
  from wf_id [OF wf d(1)] have kd: "COLLECTION_PATH_SEPARATOR \<notin> set (collection_key d)"
    by metis
  from wf_id [OF wf e(1)] have ke: "COLLECTION_PATH_SEPARATOR \<notin> set (collection_key e)"
    by metis
  from s(1) s'(1) own_path_eq [OF wf d(1)] own_path_eq [OF wf e(1)] same
  have "collection_key d @ s = collection_key e @ s'" by simp
  from segment_unique [OF this kd ke s(2) s'(2)] wf_key_inj [OF wf d(1) e(1)] ne
  show False by simp
qed

lemma flatten_distinct:
  assumes wf: "well_formed_list L"
    and objs: "\<forall>c \<in> set L. objs (collection_key c) = Some (c, map collection_key (children_of L c))"
  shows "c \<in> set L \<Longrightarrow> tree_at n objs (collection_key c) = Some t \<Longrightarrow>
     distinct (getCollectionListFromTree t (the (parentPath c)))"
proof (induction n arbitrary: c t)
  case 0
  then show ?case by simp
next
  case (Suc n)
  let ?F = "\<lambda>e. getCollectionListFromTree (the (tree_at n objs (collection_key e)))
                   (the (parentPath e))"
  from flatten_tree_at [OF wf objs Suc.prems(1,2)]
  have all: "\<forall>e \<in> set (children_of L c). tree_at n objs (collection_key e) \<noteq> None"
    and flat: "getCollectionListFromTree t (the (parentPath c)) =
      c # concat (map ?F (children_of L c))"
    by simp_all
  have kid: "e \<in> set L \<and> parentPath e = Some (own_path c)
      \<and> (\<exists>te. tree_at n objs (collection_key e) = Some te)"
    if "e \<in> set (children_of L c)" for e
    using that all by (auto simp: children_of_iff)
  from wf have dL: "distinct L"
    by (simp add: well_formed_list_def distinct_map)
  then have "distinct (children_of L c)"
    by (simp add: children_of_def)
  moreover have "distinct (?F e)" if "e \<in> set (children_of L c)" for e
    using kid [OF that] Suc.IH [of e] by auto
  moreover have "set (?F d) \<inter> set (?F e) = {}"
    if "d \<in> set (children_of L c)" "e \<in> set (children_of L c)" "d \<noteq> e" for d e
  proof -
    from kid [OF that(1)] obtain td where d: "d \<in> set L" "parentPath d = Some (own_path c)"
      "tree_at n objs (collection_key d) = Some td" by auto
    from kid [OF that(2)] obtain te where e: "e \<in> set L" "parentPath e = Some (own_path c)"
      "tree_at n objs (collection_key e) = Some te" by auto
    from siblings_disjoint [OF wf objs d(1,3) e(1,3) _ that(3)] d(2,3) e(2,3)
    show ?thesis by simp
  qed
  ultimately have "distinct (concat (map ?F (children_of L c)))"
    by (rule distinct_concat_map)
  moreover have "c \<notin> set (?F e)" if "e \<in> set (children_of L c)" for e
  proof
    assume in_e: "c \<in> set (?F e)"
    from kid [OF that] obtain te where e: "e \<in> set L" "parentPath e = Some (own_path c)"
      "tree_at n objs (collection_key e) = Some te" by auto
    from flatten_below [OF wf objs e(1,3)] in_e e(3) obtain s where
      "own_path c = own_path e @ s" by auto
    moreover from own_path_eq [OF wf e(1)] e(2)
    have "own_path e = own_path c @ COLLECTION_PATH_SEPARATOR # collection_key e" by simp
    ultimately have "length (own_path c) > length (own_path c)"
      by (metis length_append length_Cons add_Suc_right less_add_Suc1 trans_less_add1)
    then show False by simp
  qed
  ultimately show ?case
    unfolding flat by auto
qed

text \<open>
  Claim C5, amended. For a well-formed flat list \<^verbatim>\<open>getCollectionTrees\<close> does not fail, its
  trees can be read (no cycle), and flattening each of them with
  \<^verbatim>\<open>getCollectionListFromTree\<close> gives a list with exactly the records of the flat list,
  each once: the same ids and the same values of every field, \<^verbatim>\<open>parentPath\<close> included.
\<close>

theorem rebuilt_list_of_well_formed:
  assumes wf: "well_formed_list L"
  shows "\<exists>l. rebuilt_list L = Some l \<and> set l = set L \<and> distinct l"
proof -
  from getCollectionTrees_well_formed [OF wf] obtain objs where
    built: "getCollectionTrees L = Inr (objs, map collection_key (roots_of L))" and
    objs: "\<forall>c \<in> set L. objs (collection_key c) = Some (c, map collection_key (children_of L c))"
    by blast
  let ?T = "\<lambda>r. tree_at (length L) objs (collection_key r)"
  let ?F = "\<lambda>r. getCollectionListFromTree (the (?T r)) []"
  have root: "r \<in> set L \<and> parentPath r = Some [] \<and> (\<exists>t. ?T r = Some t)"
    if r: "r \<in> set (roots_of L)" for r
  proof -
    from r have rL: "r \<in> set L" and rp: "parentPath r = Some []"
      by (simp_all add: roots_of_def)
    have "{e \<in> set L. length (the (parentPath r)) < length (the (parentPath e))} \<subset> set L"
      using rL by auto
    then have "card {e \<in> set L. length (the (parentPath r)) < length (the (parentPath e))}
        < card (set L)"
      by (rule psubset_card_mono [rotated]) simp
    also have "\<dots> \<le> length L" by (rule card_length)
    finally have "?T r \<noteq> None"
      by (rule tree_at_enough_fuel [OF wf objs rL])
    with rL rp show ?thesis by auto
  qed
  let ?l = "concat (map ?F (roots_of L))"
  have "those (map (tree_at (length L) objs) (map collection_key (roots_of L))) =
      Some (map (\<lambda>r. the (?T r)) (roots_of L))"
    using those_map [of ?T "roots_of L"] root by (auto simp: comp_def)
  then have result: "rebuilt_list L = Some ?l"
    by (simp add: rebuilt_list_def collection_trees_def built flatten_trees_def comp_def)
  have "set ?l \<subseteq> set L"
  proof
    fix x assume "x \<in> set ?l"
    then obtain r where r: "r \<in> set (roots_of L)" "x \<in> set (?F r)" by auto
    from root [OF r(1)] obtain t where t: "r \<in> set L" "parentPath r = Some []" "?T r = Some t"
      by auto
    from flatten_subset [OF wf objs t(1,3)] r(2) t(2,3) show "x \<in> set L" by auto
  qed
  moreover have "set L \<subseteq> set ?l"
  proof
    fix c assume "c \<in> set L"
    from all_reached [OF wf objs _ this, of "length L"] root show "c \<in> set ?l" by auto
  qed
  moreover have "distinct ?l"
  proof (rule distinct_concat_map)
    from wf have "distinct L"
      by (simp add: well_formed_list_def distinct_map)
    then show "distinct (roots_of L)"
      by (simp add: roots_of_def)
  next
    fix r assume "r \<in> set (roots_of L)"
    from root [OF this] obtain t where t: "r \<in> set L" "parentPath r = Some []" "?T r = Some t"
      by auto
    from flatten_distinct [OF wf objs t(1,3)] t(2,3) show "distinct (?F r)" by simp
  next
    fix r r' assume "r \<in> set (roots_of L)" "r' \<in> set (roots_of L)" "r \<noteq> r'"
    from root [OF this(1)] obtain t where t: "r \<in> set L" "parentPath r = Some []" "?T r = Some t"
      by auto
    from root [OF \<open>r' \<in> set (roots_of L)\<close>] obtain t' where
      t': "r' \<in> set L" "parentPath r' = Some []" "?T r' = Some t'"
      by auto
    from siblings_disjoint [OF wf objs t(1,3) t'(1,3) _ \<open>r \<noteq> r'\<close>] t(2,3) t'(2,3)
    show "set (?F r) \<inter> set (?F r') = {}" by simp
  qed
  ultimately show ?thesis
    using result by blast
qed

theorem rebuilt_list_of_well_formed_witness:
  "well_formed_list [flat_a, flat_b]
   \<and> rebuilt_list [flat_a, flat_b] = Some [flat_a, flat_b]
   \<and> (\<exists>l. rebuilt_list [flat_a, flat_b] = Some l \<and> set l = set [flat_a, flat_b]
          \<and> distinct l)"
proof -
  have wf: "well_formed_list [flat_a, flat_b]"
    by (simp add: well_formed_list_def own_path_def subcollectionParentPath_def flat_a_def
        flat_b_def COLLECTION_PATH_SEPARATOR_def)
  have "getCollectionTrees [flat_a, flat_b] =
      Inr ([''a'' \<mapsto> (flat_a, [''b'']), ''b'' \<mapsto> (flat_b, [])], [''a''])"
    by (simp add: getCollectionTrees_def getParentCollectionId_def flat_a_def flat_b_def
        COLLECTION_PATH_SEPARATOR_def Let_def fun_upd_twist)
  then have "rebuilt_list [flat_a, flat_b] = Some [flat_a, flat_b]"
    by (simp add: rebuilt_list_def collection_trees_def flatten_trees_def eval_nat_numeral
        flat_a_def flat_b_def COLLECTION_PATH_SEPARATOR_def)
  with wf rebuilt_list_of_well_formed [OF wf] show ?thesis
    by simp
qed

end
